theory Spec2Isabelle
  imports Main "HOL-Library.Word" "HOL-Library.Code_Target_Nat"
begin

section \<open>JavaScript values, strings and buffers\<close>

text \<open>
  A JavaScript string is a sequence of 16-bit UTF-16 code units; a \<open>Buffer\<close> is a
  sequence of bytes. Bytes are natural numbers below 256; where the source converts an
  array of numbers into a \<open>Buffer\<close> the reduction modulo 256 is written out.
\<close>

type_synonym byte = nat
type_synonym jschar = "16 word"
type_synonym jsstring = "jschar list"

text \<open>An ASCII literal of the source as a JavaScript string.\<close>

definition js :: "string \<Rightarrow> jsstring" where
  "js s = map of_char s"

text \<open>
  The values the library handles: strings, \<open>BerReader\<close> instances (an object identity
  and the bytes of its buffer) and anything else (a number, \<open>undefined\<close>, ...), of which
  only the string conversion is ever observed.
\<close>

datatype jsvalue =
    VString jsstring
  | VBerReader nat "byte list"
  | VOther jsstring

text \<open>
  Failures are the thrown \<open>Error\<close> with its message, or the \<open>TypeError\<close> the runtime
  raises when a method is called on \<open>undefined\<close>.
\<close>

datatype error = Error jsstring | TypeError

subsection \<open>\<open>Buffer.from(string, 'utf8')\<close>\<close>

definition is_high_surrogate :: "nat \<Rightarrow> bool" where
  "is_high_surrogate u \<longleftrightarrow> 0xD800 \<le> u \<and> u \<le> 0xDBFF"

definition is_low_surrogate :: "nat \<Rightarrow> bool" where
  "is_low_surrogate u \<longleftrightarrow> 0xDC00 \<le> u \<and> u \<le> 0xDFFF"

definition utf8_of_codepoint :: "nat \<Rightarrow> byte list" where
  "utf8_of_codepoint cp =
     (if cp < 0x80 then [cp]
      else if cp < 0x800 then [0xC0 + cp div 64, 0x80 + cp mod 64]
      else if cp < 0x10000 then
        [0xE0 + cp div 4096, 0x80 + (cp div 64) mod 64, 0x80 + cp mod 64]
      else
        [0xF0 + cp div 262144, 0x80 + (cp div 4096) mod 64,
         0x80 + (cp div 64) mod 64, 0x80 + cp mod 64])"

text \<open>
  A surrogate pair is one code point; a lone surrogate is written as U+FFFD
  (\<open>EF BF BD\<close>).
\<close>

fun buffer_from_utf8 :: "jsstring \<Rightarrow> byte list" where
  "buffer_from_utf8 [] = []"
| "buffer_from_utf8 [u] =
     (if is_high_surrogate (unat u) \<or> is_low_surrogate (unat u) then [0xEF, 0xBF, 0xBD]
      else utf8_of_codepoint (unat u))"
| "buffer_from_utf8 (u # v # rest) =
     (if is_high_surrogate (unat u) \<and> is_low_surrogate (unat v) then
        utf8_of_codepoint (0x10000 + (unat u - 0xD800) * 0x400 + (unat v - 0xDC00))
          @ buffer_from_utf8 rest
      else if is_high_surrogate (unat u) \<or> is_low_surrogate (unat u) then
        [0xEF, 0xBF, 0xBD] @ buffer_from_utf8 (v # rest)
      else utf8_of_codepoint (unat u) @ buffer_from_utf8 (v # rest))"

text \<open>\<open>String.fromCharCode\<close> of a byte read from a buffer.\<close>

definition fromCharCode :: "byte \<Rightarrow> jschar" where
  "fromCharCode b = of_nat b"

text \<open>The numeric code of a code unit (\<open>charCodeAt\<close>).\<close>

definition charCode :: "jschar \<Rightarrow> nat" where
  "charCode c = unat c"

section \<open>The escape codec: \<open>escapeValue\<close>\<close>

text \<open>\<open>Number.prototype.toString(16)\<close> on a non-negative integer.\<close>

definition hex_digit :: "nat \<Rightarrow> jschar" where
  "hex_digit d = (if d < 10 then of_nat (0x30 + d) else of_nat (0x61 + (d - 10)))"

fun toString16 :: "nat \<Rightarrow> jsstring" where
  "toString16 n = (if n < 16 then [hex_digit n] else toString16 (n div 16) @ [hex_digit (n mod 16)])"

declare toString16.simps [simp del]

definition padStart2 :: "jsstring \<Rightarrow> jsstring" where
  "padStart2 s = replicate (2 - length s) (of_nat 0x30) @ s"

definition toEscapedHexString :: "byte \<Rightarrow> jsstring" where
  "toEscapedHexString c = of_nat 0x5c # padStart2 (toString16 c)"

text \<open>
  \<open>toEscapedHexString(toEscape[i])\<close>: reading past the end of the buffer gives
  \<open>undefined\<close>, and \<open>undefined.toString\<close> raises a \<open>TypeError\<close>.
\<close>

definition escapedAt :: "byte list \<Rightarrow> nat \<Rightarrow> error + jsstring" where
  "escapedAt toEscape i =
     (if i < length toEscape then Inr (toEscapedHexString (toEscape ! i)) else Inl TypeError)"

definition embeddedReservedChars :: "byte list" where
  "embeddedReservedChars = [0x22, 0x2b, 0x2c, 0x3b, 0x3c, 0x3e]"

function escapeLoop :: "byte list \<Rightarrow> nat \<Rightarrow> jsstring list \<Rightarrow> error + jsstring list" where
  "escapeLoop toEscape i escaped =
     (if i < length toEscape then
        (let charHex = toEscape ! i in
         if i = 0 \<and> (charHex = 0x20 \<or> charHex = 0x23) then
           escapeLoop toEscape (i + 1) (escaped @ [toEscapedHexString charHex])
         else if int i = int (length toEscape) - 1 \<and> charHex = 0x20 then
           escapeLoop toEscape (i + 1) (escaped @ [toEscapedHexString charHex])
         else if charHex \<in> set embeddedReservedChars then
           escapeLoop toEscape (i + 1) (escaped @ [toEscapedHexString charHex])
         else if 0xc0 \<le> charHex \<and> charHex \<le> 0xdf then
           (case escapedAt toEscape (i + 1) of Inl e \<Rightarrow> Inl e | Inr s1 \<Rightarrow>
            escapeLoop toEscape (i + 2) (escaped @ [toEscapedHexString charHex, s1]))
         else if 0xe0 \<le> charHex \<and> charHex \<le> 0xef then
           (case escapedAt toEscape (i + 1) of Inl e \<Rightarrow> Inl e | Inr s1 \<Rightarrow>
            case escapedAt toEscape (i + 2) of Inl e \<Rightarrow> Inl e | Inr s2 \<Rightarrow>
            escapeLoop toEscape (i + 3) (escaped @ [toEscapedHexString charHex, s1, s2]))
         else if 0xf0 \<le> charHex \<and> charHex \<le> 0xf7 then
           (case escapedAt toEscape (i + 1) of Inl e \<Rightarrow> Inl e | Inr s1 \<Rightarrow>
            case escapedAt toEscape (i + 2) of Inl e \<Rightarrow> Inl e | Inr s2 \<Rightarrow>
            case escapedAt toEscape (i + 3) of Inl e \<Rightarrow> Inl e | Inr s3 \<Rightarrow>
            escapeLoop toEscape (i + 4) (escaped @ [toEscapedHexString charHex, s1, s2, s3]))
         else if charHex \<le> 31 then
           escapeLoop toEscape (i + 1) (escaped @ [toEscapedHexString charHex])
         else
           escapeLoop toEscape (i + 1) (escaped @ [ [fromCharCode charHex] ]))
      else Inr escaped)"
  by pat_completeness auto
termination
  by (relation "measure (\<lambda>(toEscape, i, escaped). length toEscape - i)") auto

declare escapeLoop.simps [simp del]

definition escapeValue :: "jsvalue \<Rightarrow> error + jsstring" where
  "escapeValue v =
     (case v of
        VString s \<Rightarrow>
          (case escapeLoop (buffer_from_utf8 s) 0 [] of
             Inl e \<Rightarrow> Inl e
           | Inr escaped \<Rightarrow> Inr (concat escaped))
      | _ \<Rightarrow> Inl (Error (js ''value must be a string'')))"


section \<open>Character classes of the regular expressions\<close>

definition isDigit :: "jschar \<Rightarrow> bool" where
  "isDigit c \<longleftrightarrow> 0x30 \<le> charCode c \<and> charCode c \<le> 0x39"

definition isAlpha :: "jschar \<Rightarrow> bool" where
  "isAlpha c \<longleftrightarrow> (0x41 \<le> charCode c \<and> charCode c \<le> 0x5a) \<or> (0x61 \<le> charCode c \<and> charCode c \<le> 0x7a)"

definition isHexDigit :: "jschar \<Rightarrow> bool" where
  "isHexDigit c \<longleftrightarrow> isDigit c \<or> (0x41 \<le> charCode c \<and> charCode c \<le> 0x46)
     \<or> (0x61 \<le> charCode c \<and> charCode c \<le> 0x66)"

section \<open>Plain objects and \<open>Map\<close>\<close>

text \<open>
  A plain object is the list of its own enumerable properties in enumeration order
  (\<open>Object.entries\<close>): array-index keys first, in ascending numeric order, then the
  other keys in creation order. \<open>objectSet\<close> is the assignment \<open>obj[key] = val\<close>,
  which is also what the spread \<open>{ ...obj, [key]: val }\<close> yields.
\<close>

type_synonym pojo = "(jsstring \<times> jsvalue) list"

definition decimalValue :: "jsstring \<Rightarrow> nat" where
  "decimalValue k = foldl (\<lambda>acc c. acc * 10 + (charCode c - 0x30)) 0 k"

definition isArrayIndex :: "jsstring \<Rightarrow> bool" where
  "isArrayIndex k \<longleftrightarrow>
     k \<noteq> [] \<and> list_all isDigit k \<and> (length k = 1 \<or> charCode (hd k) \<noteq> 0x30)
     \<and> decimalValue k < 4294967295"

fun insertIndexKey :: "jsstring \<Rightarrow> jsvalue \<Rightarrow> pojo \<Rightarrow> pojo" where
  "insertIndexKey key val [] = [(key, val)]"
| "insertIndexKey key val ((k, v) # obj) =
     (if isArrayIndex k \<and> decimalValue k < decimalValue key
      then (k, v) # insertIndexKey key val obj
      else (key, val) # (k, v) # obj)"

definition objectSet :: "pojo \<Rightarrow> jsstring \<Rightarrow> jsvalue \<Rightarrow> pojo" where
  "objectSet obj key val =
     (if key \<in> fst ` set obj then map (\<lambda>(k, v). if k = key then (k, val) else (k, v)) obj
      else if isArrayIndex key then insertIndexKey key val obj
      else obj @ [(key, val)])"

text \<open>
  A \<open>Map\<close> keeps its keys in insertion order; \<open>set\<close> on a key already present
  replaces the value in place.
\<close>

fun Map_set :: "'k \<Rightarrow> 'v \<Rightarrow> ('k \<times> 'v) list \<Rightarrow> ('k \<times> 'v) list" where
  "Map_set k v [] = [(k, v)]"
| "Map_set k v ((k', v') # m) =
     (if k' = k then (k, v) # m else (k', v') # Map_set k v m)"

section \<open>\<open>isDottedDecimal\<close>\<close>

text \<open>\<open>String.prototype.split\<close> with a separator of one character.\<close>

fun splitOn :: "jschar \<Rightarrow> jsstring \<Rightarrow> jsstring list" where
  "splitOn sep [] = [ [] ]"
| "splitOn sep (c # cs) =
     (if c = sep then [] # splitOn sep cs
      else (c # hd (splitOn sep cs)) # tl (splitOn sep cs))"

text \<open>\<open>/^\d+$/.test(part) === false\<close>\<close>

definition partIsNotNumeric :: "jsstring \<Rightarrow> bool" where
  "partIsNotNumeric part \<longleftrightarrow> \<not> (part \<noteq> [] \<and> list_all isDigit part)"

definition isDottedDecimal :: "jsvalue \<Rightarrow> bool" where
  "isDottedDecimal v =
     (case v of
        VString value \<Rightarrow>
          (let parts = splitOn 0x2e value;
               nonNumericParts = filter partIsNotNumeric parts
           in length nonNumericParts = 0)
      | _ \<Rightarrow> False)"

section \<open>The \<open>RDN\<close> class\<close>

text \<open>
  The private \<open>#attributes\<close> map of an instance: attribute name to the stored
  attribute object. The attribute object has the fields \<open>value\<close> and \<open>name\<close> and
  whatever the deprecated options bag added to it.
\<close>

record attr =
  attr_value :: jsvalue
  attr_name :: jsvalue
  attr_extra :: pojo

type_synonym rdn = "(jsstring \<times> attr) list"

text \<open>An options argument is a plain object or something else.\<close>

datatype options = OptObject pojo | OptOther

definition startsWithAlpha :: "jsstring \<Rightarrow> bool" where
  "startsWithAlpha str = (case str of [] \<Rightarrow> False | c # _ \<Rightarrow> isAlpha c)"

text \<open>
  The loop over \<open>Object.entries(options)\<close>: the key \<open>value\<close> is skipped, every
  other key is assigned on the attribute object.
\<close>

fun applyOptions :: "pojo \<Rightarrow> attr \<Rightarrow> attr" where
  "applyOptions [] a = a"
| "applyOptions ((key, val) # opts) a =
     (if key = js ''value'' then applyOptions opts a
      else if key = js ''name'' then applyOptions opts (a\<lparr>attr_name := val\<rparr>)
      else applyOptions opts (a\<lparr>attr_extra := objectSet (attr_extra a) key val\<rparr>))"

definition isStringOrBerReader :: "jsvalue \<Rightarrow> bool" where
  "isStringOrBerReader v = (case v of VString _ \<Rightarrow> True | VBerReader _ _ \<Rightarrow> True | VOther _ \<Rightarrow> False)"

definition setAttribute :: "rdn \<Rightarrow> jsvalue \<Rightarrow> jsvalue \<Rightarrow> options \<Rightarrow> error + rdn" where
  "setAttribute this name val opts =
     (case name of
        VString n \<Rightarrow>
          if \<not> isStringOrBerReader val then Inl (Error (js ''value must be a string or BerReader''))
          else (case opts of
             OptOther \<Rightarrow> Inl (Error (js ''options must be an object''))
           | OptObject os \<Rightarrow>
               if startsWithAlpha n = False \<and> isDottedDecimal name = False then
                 Inl (Error (js ''attribute name must start with an ASCII alpha character or be a numeric OID''))
               else
                 Inr (Map_set n (applyOptions os \<lparr>attr_value = val, attr_name = name, attr_extra = []\<rparr>) this))
      | _ \<Rightarrow> Inl (Error (js ''name must be a string'')))"

text \<open>The constructor: \<open>setAttribute\<close> for every entry of the given object.\<close>

fun RDN_construct :: "pojo \<Rightarrow> rdn \<Rightarrow> error + rdn" where
  "RDN_construct [] this = Inr this"
| "RDN_construct ((key, val) # entries) this =
     (case setAttribute this (VString key) val (OptObject []) of
        Inl e \<Rightarrow> Inl e
      | Inr this' \<Rightarrow> RDN_construct entries this')"

definition RDN_new :: "pojo \<Rightarrow> error + rdn" where
  "RDN_new obj = RDN_construct obj []"

definition RDN_size :: "rdn \<Rightarrow> nat" where
  "RDN_size this = length this"

definition RDN_has :: "rdn \<Rightarrow> jsstring \<Rightarrow> bool" where
  "RDN_has this name \<longleftrightarrow> map_of this name \<noteq> None"

definition RDN_keys :: "rdn \<Rightarrow> jsstring list" where
  "RDN_keys this = map fst this"

text \<open>\<open>getValue\<close>; \<open>None\<close> is \<open>undefined\<close>.\<close>

definition RDN_getValue :: "rdn \<Rightarrow> jsstring \<Rightarrow> jsvalue option" where
  "RDN_getValue this name = map_option attr_value (map_of this name)"

text \<open>
  Strict equality \<open>===\<close>: strings by content, objects by identity, \<open>undefined\<close> only
  with \<open>undefined\<close>.
\<close>

fun strictEquals :: "jsvalue option \<Rightarrow> jsvalue option \<Rightarrow> bool" where
  "strictEquals None None = True"
| "strictEquals (Some (VString a)) (Some (VString b)) = (a = b)"
| "strictEquals (Some (VBerReader r _)) (Some (VBerReader r' _)) = (r = r')"
| "strictEquals (Some (VOther a)) (Some (VOther b)) = (a = b)"
| "strictEquals _ _ = False"

fun RDN_equals_loop :: "rdn \<Rightarrow> jsstring list \<Rightarrow> rdn \<Rightarrow> bool" where
  "RDN_equals_loop this [] rdn = True"
| "RDN_equals_loop this (key # ks) rdn =
     (if RDN_has rdn key = False then False
      else if \<not> strictEquals (RDN_getValue this key) (RDN_getValue rdn key) then False
      else RDN_equals_loop this ks rdn)"

text \<open>\<open>equals\<close>; the argument \<open>None\<close> is any value that is not an \<open>RDN\<close> instance.\<close>

definition RDN_equals :: "rdn \<Rightarrow> rdn option \<Rightarrow> bool" where
  "RDN_equals this other =
     (case other of
        None \<Rightarrow> False
      | Some rdn \<Rightarrow>
          if RDN_size this \<noteq> RDN_size rdn then False
          else RDN_equals_loop this (RDN_keys this) rdn)"

text \<open>\<open>/^#([0-9a-fA-F]{2})+$/.test(val)\<close>\<close>

fun hexPairs :: "jsstring \<Rightarrow> bool" where
  "hexPairs [] = True"
| "hexPairs [c] = False"
| "hexPairs (c # d # cs) = (isHexDigit c \<and> isHexDigit d \<and> hexPairs cs)"

text \<open>
  The regular expression is applied to the string conversion of the value: the one of a
  \<open>BerReader\<close> is \<open>[object BerReader]\<close>, the one of any other value is what it carries.
\<close>

definition ToString :: "jsvalue \<Rightarrow> jsstring" where
  "ToString v = (case v of VString s \<Rightarrow> s | VBerReader _ _ \<Rightarrow> js ''[object BerReader]'' | VOther s \<Rightarrow> s)"

definition isHexEncodedValue :: "jsvalue \<Rightarrow> bool" where
  "isHexEncodedValue val =
     (case ToString val of [] \<Rightarrow> False | c # cs \<Rightarrow> charCode c = 0x23 \<and> cs \<noteq> [] \<and> hexPairs cs)"

fun RDN_toString_loop :: "(jsstring \<times> attr) list \<Rightarrow> jsstring \<Rightarrow> error + jsstring" where
  "RDN_toString_loop [] result = Inr result"
| "RDN_toString_loop ((k, entry) # entries) result =
     (let result1 = result @ ToString (attr_name entry) @ js ''='' in
      if isHexEncodedValue (attr_value entry) then
        RDN_toString_loop entries (result1 @ ToString (attr_value entry) @ js ''+'')
      else (case attr_value entry of
          VBerReader r buffer \<Rightarrow>
            RDN_toString_loop entries
              (result1 @ (js ''#'' @ concat (map (\<lambda>byte. padStart2 (toString16 byte)) buffer)) @ js ''+'')
        | v \<Rightarrow> (case escapeValue v of
              Inl e \<Rightarrow> Inl e
            | Inr escaped \<Rightarrow> RDN_toString_loop entries (result1 @ escaped @ js ''+''))))"

definition RDN_toString :: "rdn \<Rightarrow> error + jsstring" where
  "RDN_toString this =
     (case RDN_toString_loop this [] of
        Inl e \<Rightarrow> Inl e
      | Inr result \<Rightarrow> Inr (take (length result - 1) result))"

text \<open>
  \<open>RDN.isRdn\<close>. A candidate is an \<open>RDN\<close> instance, a plain object or something else.
\<close>

datatype 'r rdnlike = Instance 'r | PlainObject pojo | NotAnObject

definition isString :: "jsvalue option \<Rightarrow> bool" where
  "isString v = (case v of Some (VString _) \<Rightarrow> True | _ \<Rightarrow> False)"

definition isRdn :: "'r rdnlike \<Rightarrow> bool" where
  "isRdn r =
     (case r of
        Instance _ \<Rightarrow> True
      | NotAnObject \<Rightarrow> False
      | PlainObject obj \<Rightarrow>
          if isString (map_of obj (js ''name'')) \<and> isString (map_of obj (js ''value'')) then True
          else list_all (\<lambda>(k, v). isStringOrBerReader v) obj)"


section \<open>Buffers, decoding and number parsing\<close>

text \<open>\<open>searchBuffer[pos]\<close>; outside the buffer the value is \<open>undefined\<close> (\<open>None\<close>).\<close>

definition byteAt :: "byte list \<Rightarrow> int \<Rightarrow> byte option" where
  "byteAt searchBuffer pos =
     (if 0 \<le> pos \<and> pos < int (length searchBuffer) then Some (searchBuffer ! nat pos) else None)"

text \<open>
  \<open>String.fromCharCode(searchBuffer[pos])\<close>; \<open>String.fromCharCode(undefined)\<close> is the
  character of code 0.
\<close>

definition charAt :: "byte list \<Rightarrow> int \<Rightarrow> jschar" where
  "charAt searchBuffer pos = (case byteAt searchBuffer pos of None \<Rightarrow> 0 | Some b \<Rightarrow> fromCharCode b)"

text \<open>
  White space and line terminators of ECMAScript, as removed by \<open>trim\<close> and skipped by
  \<open>parseInt\<close>.
\<close>

definition isWhiteSpace :: "jschar \<Rightarrow> bool" where
  "isWhiteSpace c \<longleftrightarrow>
     charCode c \<in> set [0x9, 0xA, 0xB, 0xC, 0xD, 0x20, 0xA0, 0x1680, 0x2028, 0x2029, 0x202F,
       0x205F, 0x3000, 0xFEFF]
     \<or> (0x2000 \<le> charCode c \<and> charCode c \<le> 0x200A)"

definition trim :: "jsstring \<Rightarrow> jsstring" where
  "trim s = rev (dropWhile isWhiteSpace (rev (dropWhile isWhiteSpace s)))"

definition hexDigitValue :: "jschar \<Rightarrow> nat" where
  "hexDigitValue c =
     (if isDigit c then charCode c - 0x30
      else if 0x61 \<le> charCode c \<and> charCode c \<le> 0x66 then charCode c - 0x61 + 10
      else charCode c - 0x41 + 10)"

text \<open>
  \<open>parseInt(string, 16)\<close>: leading white space is skipped, a sign and a \<open>0x\<close> prefix
  are accepted, and the longest prefix of hexadecimal digits is the value; without a
  digit the result is \<open>NaN\<close> (\<open>None\<close>).
\<close>

definition parseInt16 :: "jsstring \<Rightarrow> int option" where
  "parseInt16 string =
     (let s = dropWhile isWhiteSpace string;
          sign = (if s \<noteq> [] \<and> charCode (hd s) = 0x2d then - 1 else (1::int));
          s1 = (if s \<noteq> [] \<and> (charCode (hd s) = 0x2b \<or> charCode (hd s) = 0x2d) then tl s else s);
          s2 = (if 2 \<le> length s1 \<and> charCode (s1 ! 0) = 0x30
                   \<and> (charCode (s1 ! 1) = 0x78 \<or> charCode (s1 ! 1) = 0x58)
                then drop 2 s1 else s1);
          z = takeWhile isHexDigit s2
      in if z = [] then None
         else Some (sign * int (foldl (\<lambda>acc d. acc * 16 + hexDigitValue d) 0 z)))"

text \<open>
  An element of the array given to \<open>Buffer.from\<close>: \<open>NaN\<close> becomes 0 and any other
  number is reduced modulo 256.
\<close>

definition toUint8 :: "int option \<Rightarrow> byte" where
  "toUint8 v = (case v of None \<Rightarrow> 0 | Some n \<Rightarrow> nat (n mod 256))"

subsection \<open>\<open>Buffer.prototype.toString('utf8')\<close>\<close>

text \<open>
  The decoder of the Encoding Standard: an ill-formed sequence becomes U+FFFD and the
  byte that ended it is read again. The arguments after the bytes are the code point
  under construction, the number of continuation bytes needed and seen, and the
  bounds of the next continuation byte.
\<close>

fun utf8_decode_loop :: "byte list \<Rightarrow> nat \<Rightarrow> nat \<Rightarrow> nat \<Rightarrow> nat \<Rightarrow> nat \<Rightarrow> nat list" where
  "utf8_decode_loop [] cp needed seen lower upper = (if needed \<noteq> 0 then [0xFFFD] else [])"
| "utf8_decode_loop (b # bs) cp needed seen lower upper =
     (if needed = 0 then
        (if b \<le> 0x7F then b # utf8_decode_loop bs 0 0 0 0x80 0xBF
         else if 0xC2 \<le> b \<and> b \<le> 0xDF then utf8_decode_loop bs (b mod 32) 1 0 0x80 0xBF
         else if 0xE0 \<le> b \<and> b \<le> 0xEF then
           utf8_decode_loop bs (b mod 16) 2 0
             (if b = 0xE0 then 0xA0 else 0x80) (if b = 0xED then 0x9F else 0xBF)
         else if 0xF0 \<le> b \<and> b \<le> 0xF4 then
           utf8_decode_loop bs (b mod 8) 3 0
             (if b = 0xF0 then 0x90 else 0x80) (if b = 0xF4 then 0x8F else 0xBF)
         else 0xFFFD # utf8_decode_loop bs 0 0 0 0x80 0xBF)
      else if \<not> (lower \<le> b \<and> b \<le> upper) then
        0xFFFD # utf8_decode_loop (b # bs) 0 0 0 0x80 0xBF
      else if seen + 1 = needed then
        (cp * 64 + b mod 64) # utf8_decode_loop bs 0 0 0 0x80 0xBF
      else utf8_decode_loop bs (cp * 64 + b mod 64) needed (seen + 1) 0x80 0xBF)"

text \<open>A code point as UTF-16 code units.\<close>

definition utf16_of_codepoint :: "nat \<Rightarrow> jsstring" where
  "utf16_of_codepoint cp =
     (if cp < 0x10000 then [of_nat cp]
      else [of_nat (0xD800 + (cp - 0x10000) div 0x400), of_nat (0xDC00 + (cp - 0x10000) mod 0x400)])"

definition toStringUtf8 :: "byte list \<Rightarrow> jsstring" where
  "toStringUtf8 bytes = concat (map utf16_of_codepoint (utf8_decode_loop bytes 0 0 0 0x80 0xBF))"

text \<open>
  \<open>searchBuffer.subarray(start, end)\<close>: a negative index counts from the end of the
  buffer.
\<close>

definition subarray :: "byte list \<Rightarrow> int \<Rightarrow> int \<Rightarrow> byte list" where
  "subarray searchBuffer start end =
     (let len = int (length searchBuffer);
          s = (if start < 0 then max (len + start) 0 else min start len);
          e = (if end < 0 then max (len + end) 0 else min end len)
      in take (nat (e - s)) (drop (nat s) searchBuffer))"

section \<open>The name scanner\<close>

text \<open>\<open>/[a-zA-Z0-9]/.test(c)\<close> on a string of one character.\<close>

definition isLeadChar :: "jschar \<Rightarrow> bool" where
  "isLeadChar c \<longleftrightarrow> isAlpha c \<or> isDigit c"

function findNameStart :: "byte list \<Rightarrow> int \<Rightarrow> int" where
  "findNameStart searchBuffer pos =
     (if pos < int (length searchBuffer) then
        (if byteAt searchBuffer pos = Some 0x20 \<or> byteAt searchBuffer pos = Some 0x2c then
           findNameStart searchBuffer (pos + 1)
         else if isLeadChar (charAt searchBuffer pos) then pos
         else - 1)
      else - 1)"
  by pat_completeness auto
termination
  by (relation "measure (\<lambda>(searchBuffer, pos). nat (int (length searchBuffer) - pos))") auto

declare findNameStart.simps [simp del]

definition isValidNameChar :: "byte option \<Rightarrow> bool" where
  "isValidNameChar c =
     (case c of
        None \<Rightarrow> False
      | Some c \<Rightarrow>
          if 0x41 \<le> c \<and> c \<le> 0x5a then True
          else if 0x61 \<le> c \<and> c \<le> 0x7a then True
          else if 0x30 \<le> c \<and> c \<le> 0x39 then True
          else if c = 0x2d \<or> c = 0x2e then True
          else False)"

function findNameEnd :: "byte list \<Rightarrow> int \<Rightarrow> int" where
  "findNameEnd searchBuffer pos =
     (if pos < int (length searchBuffer) then
        (let char = byteAt searchBuffer pos in
         if char = Some 0x20 \<or> char = Some 0x3d then pos
         else if isValidNameChar char then findNameEnd searchBuffer (pos + 1)
         else - 1)
      else pos)"
  by pat_completeness auto
termination
  by (relation "measure (\<lambda>(searchBuffer, pos). nat (int (length searchBuffer) - pos))") auto

declare findNameEnd.simps [simp del]

text \<open>
  \<open>isValidAttributeTypeName\<close>. The first character of the empty name is \<open>undefined\<close>,
  whose string conversion has no digit and has letters; the unanchored expressions
  \<open>/[0-9]/\<close> and \<open>/[a-zA-Z]/\<close> are tested on it.
\<close>

definition hasKeyChars :: "jsstring \<Rightarrow> bool" where
  "hasKeyChars input \<longleftrightarrow> (\<exists>c \<in> set input. isAlpha c \<or> charCode c = 0x2d)"

definition hasInvalidChars :: "jsstring \<Rightarrow> bool" where
  "hasInvalidChars input \<longleftrightarrow> (\<exists>c \<in> set input. \<not> (isAlpha c \<or> isDigit c \<or> charCode c = 0x2d))"

definition isValidAttributeTypeName :: "jsstring \<Rightarrow> bool" where
  "isValidAttributeTypeName name =
     (case name of
        [] \<Rightarrow> hasInvalidChars name = False
      | c # _ \<Rightarrow>
          if isDigit c then hasKeyChars name = False
          else if isAlpha c = False then False
          else hasInvalidChars name = False)"


section \<open>The escape codec: \<open>readEscapeSequence\<close>\<close>

text \<open>
  The loop collects numbers in the array \<open>buf\<close>: bytes of the buffer and results of
  \<open>parseInt\<close>, which may be \<open>NaN\<close>. The result is the end position and
  \<open>Buffer.from(buf)\<close>.
\<close>

function readEscapeSequence_loop ::
  "byte list \<Rightarrow> int \<Rightarrow> int option list \<Rightarrow> error + (int \<times> int option list)" where
  "readEscapeSequence_loop searchBuffer pos buf =
     (if pos < int (length searchBuffer) then
        (let char = byteAt searchBuffer pos;
             nextChar = byteAt searchBuffer (pos + 1)
         in if char \<noteq> Some 0x5c then Inr (pos, buf)
            else
              (let strHexCode = [charAt searchBuffer (pos + 1), charAt searchBuffer (pos + 2)];
                   hexCode = parseInt16 strHexCode
               in case hexCode of
                    None \<Rightarrow>
                      (case nextChar of
                         None \<Rightarrow> Inl (Error (js ''invalid hex code in escape sequence''))
                       | Some n \<Rightarrow>
                           if 0x00 \<le> n \<and> n \<le> 0x7f then
                             readEscapeSequence_loop searchBuffer (pos + 2) (buf @ [Some (int n)])
                           else Inl (Error (js ''invalid hex code in escape sequence'')))
                  | Some h \<Rightarrow>
                      if 0xc0 \<le> h \<and> h \<le> 0xdf then
                        (let secondByte = parseInt16 [charAt searchBuffer (pos + 4), charAt searchBuffer (pos + 5)]
                         in readEscapeSequence_loop searchBuffer (pos + 6) (buf @ [Some h, secondByte]))
                      else if 0xe0 \<le> h \<and> h \<le> 0xef then
                        (let secondByte = parseInt16 [charAt searchBuffer (pos + 4), charAt searchBuffer (pos + 5)];
                             thirdByte = parseInt16 [charAt searchBuffer (pos + 7), charAt searchBuffer (pos + 8)]
                         in readEscapeSequence_loop searchBuffer (pos + 9)
                              (buf @ [Some h, secondByte, thirdByte]))
                      else if 0xf0 \<le> h \<and> h \<le> 0xf7 then
                        (let secondByte = parseInt16 [charAt searchBuffer (pos + 4), charAt searchBuffer (pos + 5)];
                             thirdByte = parseInt16 [charAt searchBuffer (pos + 7), charAt searchBuffer (pos + 8)];
                             fourthByte = parseInt16 [charAt searchBuffer (pos + 10), charAt searchBuffer (pos + 11)]
                         in readEscapeSequence_loop searchBuffer (pos + 12)
                              (buf @ [Some h, secondByte, thirdByte, fourthByte]))
                      else readEscapeSequence_loop searchBuffer (pos + 3) (buf @ [Some h])))
      else Inr (pos, buf))"
  by pat_completeness auto
termination
  by (relation "measure (\<lambda>(searchBuffer, pos, buf). nat (int (length searchBuffer) - pos))") auto

declare readEscapeSequence_loop.simps [simp del]

definition readEscapeSequence :: "byte list \<Rightarrow> int \<Rightarrow> error + (int \<times> byte list)" where
  "readEscapeSequence searchBuffer startPos =
     (case readEscapeSequence_loop searchBuffer startPos [] of
        Inl e \<Rightarrow> Inl e
      | Inr (endPos, buf) \<Rightarrow> Inr (endPos, map toUint8 buf))"

section \<open>The hex-octet reader: \<open>readHexString\<close>\<close>

definition isEndCharHex :: "byte option \<Rightarrow> bool" where
  "isEndCharHex c \<longleftrightarrow> c = Some 0x20 \<or> c = Some 0x2b \<or> c = Some 0x2c \<or> c = Some 0x3b"

text \<open>\<open>/[0-9a-fA-F]{2}/.test(code)\<close>: two hexadecimal digits somewhere in the string.\<close>

fun isValidHexCode :: "jsstring \<Rightarrow> bool" where
  "isValidHexCode (c # d # cs) = ((isHexDigit c \<and> isHexDigit d) \<or> isValidHexCode (d # cs))"
| "isValidHexCode _ = False"

function readHexString_loop ::
  "byte list \<Rightarrow> int \<Rightarrow> int option list \<Rightarrow> error + (int \<times> int option list)" where
  "readHexString_loop searchBuffer pos bytes =
     (if pos < int (length searchBuffer) then
        (if isEndCharHex (byteAt searchBuffer pos) then Inr (pos, bytes)
         else
           (let hexPair = [charAt searchBuffer pos, charAt searchBuffer (pos + 1)]
            in if isValidHexCode hexPair = False then
                 Inl (Error (js ''invalid hex pair encountered: 0x'' @ hexPair))
               else readHexString_loop searchBuffer (pos + 2) (bytes @ [parseInt16 hexPair])))
      else Inr (pos, bytes))"
  by pat_completeness auto
termination
  by (relation "measure (\<lambda>(searchBuffer, pos, bytes). nat (int (length searchBuffer) - pos))") auto

declare readHexString_loop.simps [simp del]

text \<open>
  The result holds a new \<open>BerReader\<close>. Its identity is the argument \<open>fresh\<close> plus the
  position the reading started at, which differs for any two readers made while one
  buffer is parsed.
\<close>

definition readHexString :: "nat \<Rightarrow> byte list \<Rightarrow> int \<Rightarrow> error + (int \<times> jsvalue)" where
  "readHexString fresh searchBuffer startPos =
     (case readHexString_loop searchBuffer startPos [] of
        Inl e \<Rightarrow> Inl e
      | Inr (endPos, bytes) \<Rightarrow> Inr (endPos, VBerReader (fresh + nat startPos) (map toUint8 bytes)))"

section \<open>The attribute-value reader\<close>

text \<open>The decimal digits of a number that is concatenated to a string.\<close>

fun decimalDigits :: "nat \<Rightarrow> jsstring" where
  "decimalDigits n = (if n < 10 then [of_nat (0x30 + n)] else decimalDigits (n div 10) @ [of_nat (0x30 + n mod 10)])"

declare decimalDigits.simps [simp del]

definition decimalString :: "int \<Rightarrow> jsstring" where
  "decimalString n = (if n < 0 then js ''-'' @ decimalDigits (nat (- n)) else decimalDigits (nat n))"



definition isEndChar :: "byte option \<Rightarrow> bool" where
  "isEndChar c \<longleftrightarrow> c = Some 0x2b \<or> c = Some 0x2c \<or> c = Some 0x3b"

text \<open>The loop after a closing quote: only spaces may precede the end character.\<close>

function afterEndQuote :: "byte list \<Rightarrow> int \<Rightarrow> error + int" where
  "afterEndQuote searchBuffer pos =
     (if pos < int (length searchBuffer) then
        (let nextChar = byteAt searchBuffer pos in
         if isEndChar nextChar = True then Inr pos
         else if nextChar \<noteq> Some 0x20 then
           Inl (Error (js ''significant rdn character found outside of quotes at position '' @ decimalString pos))
         else afterEndQuote searchBuffer (pos + 1))
      else Inr pos)"
  by pat_completeness auto
termination
  by (relation "measure (\<lambda>(searchBuffer, pos). nat (int (length searchBuffer) - pos))") auto

declare afterEndQuote.simps [simp del]

function readValueString_loop ::
  "byte list \<Rightarrow> int \<Rightarrow> int \<Rightarrow> bool \<Rightarrow> bool \<Rightarrow> byte list \<Rightarrow> error + (int \<times> byte list)" where
  "readValueString_loop searchBuffer startPos pos inQuotes endQuotePresent bytes =
     (if pos \<le> int (length searchBuffer) then
        (let char = byteAt searchBuffer pos in
         if pos = int (length searchBuffer) then
           (if inQuotes = True \<and> endQuotePresent = False then
              Inl (Error (js ''missing ending double quote for attribute value''))
            else Inr (pos, bytes))
         else if char = Some 0x22 then
           (if inQuotes = True then
              (case afterEndQuote searchBuffer (pos + 1) of
                 Inl e \<Rightarrow> Inl e
               | Inr pos' \<Rightarrow> Inr (pos', bytes))
            else if pos \<noteq> startPos then
              Inl (Error (js ''unexpected quote (\") in rdn string at position '' @ decimalString pos))
            else readValueString_loop searchBuffer startPos (pos + 1) True endQuotePresent bytes)
         else if isEndChar char = True \<and> inQuotes = False then Inr (pos, bytes)
         else if char = Some 0x5c then
           (case readEscapeSequence searchBuffer pos of
              Inl e \<Rightarrow> Inl e
            | Inr (endPos, parsed) \<Rightarrow>
                readValueString_loop searchBuffer startPos endPos inQuotes endQuotePresent (bytes @ parsed))
         else
           readValueString_loop searchBuffer startPos (pos + 1) inQuotes endQuotePresent
             (bytes @ [toUint8 (map_option int char)]))
      else Inr (pos, bytes))"
  by pat_completeness auto
termination
proof -
  have mono: "readEscapeSequence_loop buf p acc = Inr (e, r) \<Longrightarrow> p \<le> e" for buf p acc e r
  proof (induction buf p acc rule: readEscapeSequence_loop.induct)
    case (1 searchBuffer pos buf)
    from "1.prems" show ?case
      by (subst (asm) readEscapeSequence_loop.simps)
        (auto simp: Let_def split: if_splits option.splits dest!: "1.IH" [rotated -1])
  qed
  have adv: "pos < endPos"
    if "readEscapeSequence searchBuffer pos = Inr (endPos, parsed)"
      and "byteAt searchBuffer pos = Some 0x5c" for searchBuffer pos endPos parsed
  proof -
    from that(1) obtain buf where l: "readEscapeSequence_loop searchBuffer pos [] = Inr (endPos, buf)"
      by (auto simp: readEscapeSequence_def split: sum.splits)
    from that(2) have "pos < int (length searchBuffer)"
      by (simp add: byteAt_def split: if_splits)
    with l that(2) show ?thesis
      unfolding readEscapeSequence_loop.simps [of searchBuffer pos "[]"]
      by (auto simp: Let_def split: if_splits option.splits dest!: mono)
  qed
  show ?thesis
    by (relation "measure (\<lambda>(searchBuffer, startPos, pos, inQuotes, endQuotePresent, bytes).
          nat (int (length searchBuffer) + 1 - pos))") (auto dest: adv)
qed

declare readValueString_loop.simps [simp del]

definition readValueString :: "byte list \<Rightarrow> int \<Rightarrow> error + (int \<times> byte list)" where
  "readValueString searchBuffer startPos =
     readValueString_loop searchBuffer startPos startPos False False []"


text \<open>The two loops of \<open>readAttributeValue\<close> that skip spaces, before and after the equals sign.\<close>

function skipSpaces :: "byte list \<Rightarrow> int \<Rightarrow> int" where
  "skipSpaces searchBuffer pos =
     (if pos < int (length searchBuffer) \<and> byteAt searchBuffer pos = Some 0x20
      then skipSpaces searchBuffer (pos + 1) else pos)"
  by pat_completeness auto
termination
  by (relation "measure (\<lambda>(searchBuffer, pos). nat (int (length searchBuffer) - pos))") auto

declare skipSpaces.simps [simp del]

function skipValueSpaces :: "byte list \<Rightarrow> int \<Rightarrow> int" where
  "skipValueSpaces searchBuffer pos =
     (if pos \<le> int (length searchBuffer) \<and> byteAt searchBuffer pos = Some 0x20
      then skipValueSpaces searchBuffer (pos + 1) else pos)"
  by pat_completeness auto
termination
  by (relation "measure (\<lambda>(searchBuffer, pos). nat (int (length searchBuffer) + 1 - pos))") auto

declare skipValueSpaces.simps [simp del]

definition readAttributeValue :: "nat \<Rightarrow> byte list \<Rightarrow> int \<Rightarrow> error + (int \<times> jsvalue)" where
  "readAttributeValue fresh searchBuffer startPos =
     (let pos = skipSpaces searchBuffer startPos in
      if pos \<ge> int (length searchBuffer) \<or> byteAt searchBuffer pos \<noteq> Some 0x3d then
        Inl (Error (js ''attribute value does not start with equals sign''))
      else
        (let pos = skipValueSpaces searchBuffer (pos + 1) in
         if pos \<ge> int (length searchBuffer) then Inr (pos, VString [])
         else if byteAt searchBuffer pos = Some 0x23 then
           (case readHexString fresh searchBuffer (pos + 1) of
              Inl e \<Rightarrow> Inl e
            | Inr (endPos, berReader) \<Rightarrow> Inr (endPos, berReader))
         else
           (case readValueString searchBuffer pos of
              Inl e \<Rightarrow> Inl e
            | Inr (endPos, val) \<Rightarrow> Inr (endPos, VString (trim (toStringUtf8 val))))))"

section \<open>The attribute-pair reader\<close>

text \<open>
  The second test repeats \<open>nameStartPos < 0\<close>, as the source does; the result of
  \<open>findNameEnd\<close> is not tested.
\<close>

definition readAttributePair ::
  "nat \<Rightarrow> byte list \<Rightarrow> int \<Rightarrow> error + (int \<times> (jsstring \<times> jsvalue))" where
  "readAttributePair fresh searchBuffer startPos =
     (let nameStartPos = findNameStart searchBuffer startPos in
      if nameStartPos < 0 then
        Inl (Error (js ''invalid attribute name leading character encountered''))
      else
        (let nameEndPos = findNameEnd searchBuffer nameStartPos in
         if nameStartPos < 0 then
           Inl (Error (js ''invalid character in attribute name encountered''))
         else
           (let attributeName = toStringUtf8 (subarray searchBuffer nameStartPos nameEndPos) in
            if isValidAttributeTypeName attributeName = False then
              Inl (Error (js ''invalid attribute type name: '' @ attributeName))
            else
              (case readAttributeValue fresh searchBuffer nameEndPos of
                 Inl e \<Rightarrow> Inl e
               | Inr (endPos, attributeValue) \<Rightarrow> Inr (endPos, (attributeName, attributeValue))))))"

section \<open>The DN string parser: \<open>parseString\<close>\<close>

definition isSeparator :: "byte option \<Rightarrow> bool" where
  "isSeparator char \<longleftrightarrow> char = Some 0x2b \<or> char = Some 0x2c \<or> char = Some 0x3b"

text \<open>
  The labelled loop \<open>readRdnLoop\<close> and the loop nested in it. The flag \<open>inner\<close> says
  that control is at the head of the nested loop. The nested loop changes nothing when
  the character is not a separator, so it runs forever there: the result \<open>None\<close> is
  a call that does not return.
\<close>

partial_function (option) readRdnLoop ::
  "nat \<Rightarrow> byte list \<Rightarrow> bool \<Rightarrow> int \<Rightarrow> pojo \<Rightarrow> pojo list \<Rightarrow> (error + pojo list) option" where
  "readRdnLoop fresh searchBuffer inner pos rdn rdns =
     (if inner then
        (if pos < int (length searchBuffer) then
           (let char = byteAt searchBuffer pos in
            if char = Some 0x2b then readRdnLoop fresh searchBuffer False (pos + 1) rdn rdns
            else if char = Some 0x2c \<or> char = Some 0x3b then
              readRdnLoop fresh searchBuffer False (pos + 1) [] (rdns @ [rdn])
            else readRdnLoop fresh searchBuffer True pos rdn rdns)
         else readRdnLoop fresh searchBuffer False pos rdn rdns)
      else if pos \<le> int (length searchBuffer) then
        (if pos = int (length searchBuffer) \<and> isSeparator (byteAt searchBuffer (pos - 1)) then
           Some (Inl (Error (js ''rdn string ends abruptly with character: ''
                  @ [charAt searchBuffer (pos - 1)])))
         else
           (case readAttributePair fresh searchBuffer (skipSpaces searchBuffer pos) of
              Inl e \<Rightarrow> Some (Inl e)
            | Inr (endPos, (name, val)) \<Rightarrow>
                if endPos \<ge> int (length searchBuffer) then
                  Some (Inr (rdns @ [objectSet rdn name val]))
                else readRdnLoop fresh searchBuffer True endPos (objectSet rdn name val) rdns))
      else Some (Inr rdns))"

declare readRdnLoop.simps [code]

definition parseString :: "nat \<Rightarrow> jsvalue \<Rightarrow> (error + pojo list) option" where
  "parseString fresh input =
     (case input of
        VString inp \<Rightarrow>
          if length inp = 0 then Some (Inr [])
          else readRdnLoop fresh (buffer_from_utf8 inp) False 0 [] []
      | _ \<Rightarrow> Some (Inl (Error (js ''input must be a string''))))"


section \<open>The \<open>DN\<close> class\<close>

text \<open>
  The state of an instance is its private array \<open>#rdns\<close>. Here the array holds the
  states of the \<open>RDN\<close> instances; the object store below holds references instead.
\<close>

type_synonym dn = "rdn list"

datatype 'r rdns = NotAnArray | Array "'r rdnlike list"

text \<open>
  The callback of \<open>rdns.map\<close>: an instance is kept, anything else is given to the
  \<open>RDN\<close> constructor. The last case is not reached, the constructor has thrown before.
\<close>

definition toRdn :: "rdn rdnlike \<Rightarrow> error + rdn" where
  "toRdn r = (case r of Instance x \<Rightarrow> Inr x | PlainObject obj \<Rightarrow> RDN_new obj | NotAnObject \<Rightarrow> RDN_new [])"

fun mapToRdn :: "rdn rdnlike list \<Rightarrow> error + rdn list" where
  "mapToRdn [] = Inr []"
| "mapToRdn (r # rs) =
     (case toRdn r of
        Inl e \<Rightarrow> Inl e
      | Inr x \<Rightarrow> (case mapToRdn rs of Inl e \<Rightarrow> Inl e | Inr xs \<Rightarrow> Inr (x # xs)))"

definition DN_new :: "rdn rdns \<Rightarrow> error + dn" where
  "DN_new input =
     (case input of
        NotAnArray \<Rightarrow> Inl (Error (js ''rdns must be an array''))
      | Array rdns \<Rightarrow>
          (let hasNonRdn = list_ex (\<lambda>r. isRdn r = False) rdns in
           if hasNonRdn = True then Inl (Error (js ''rdns must be an array of RDN objects''))
           else mapToRdn rdns))"

definition DN_length :: "dn \<Rightarrow> nat" where
  "DN_length this = length this"

definition DN_isEmpty :: "dn \<Rightarrow> bool" where
  "DN_isEmpty this \<longleftrightarrow> length this = 0"

text \<open>\<open>rdnAt\<close>; outside the array the result is \<open>undefined\<close>.\<close>

definition DN_rdnAt :: "dn \<Rightarrow> int \<Rightarrow> rdn option" where
  "DN_rdnAt this index =
     (if 0 \<le> index \<and> index < int (length this) then Some (this ! nat index) else None)"

definition DN_clone :: "dn \<Rightarrow> error + dn" where
  "DN_clone this = DN_new (Array (map Instance this))"

fun DN_toString_loop :: "rdn list \<Rightarrow> jsstring \<Rightarrow> error + jsstring" where
  "DN_toString_loop [] result = Inr result"
| "DN_toString_loop (rdn # rdns) result =
     (case RDN_toString rdn of
        Inl e \<Rightarrow> Inl e
      | Inr rdnString \<Rightarrow> DN_toString_loop rdns (result @ js '','' @ rdnString))"

definition DN_toString :: "dn \<Rightarrow> error + jsstring" where
  "DN_toString this =
     (case DN_toString_loop this [] of Inl e \<Rightarrow> Inl e | Inr result \<Rightarrow> Inr (drop 1 result))"

definition DN_fromString :: "nat \<Rightarrow> jsvalue \<Rightarrow> (error + dn) option" where
  "DN_fromString fresh dnString =
     (case parseString fresh dnString of
        None \<Rightarrow> None
      | Some (Inl e) \<Rightarrow> Some (Inl e)
      | Some (Inr rdns) \<Rightarrow> Some (DN_new (Array (map PlainObject rdns))))"

text \<open>The argument of \<open>equals\<close>, \<open>parentOf\<close> and \<open>childOf\<close>: a string or an instance.\<close>

datatype 'd dnarg = ArgString jsstring | ArgDn 'd

function DN_equals_loop :: "dn \<Rightarrow> dn \<Rightarrow> nat \<Rightarrow> bool" where
  "DN_equals_loop this dn i =
     (if i < DN_length this then
        (if RDN_equals (this ! i) (DN_rdnAt dn (int i)) = False then False
         else DN_equals_loop this dn (i + 1))
      else True)"
  by pat_completeness auto
termination
  by (relation "measure (\<lambda>(this, dn, i). DN_length this - i)") auto

declare DN_equals_loop.simps [simp del]

text \<open>The body of \<open>equals\<close> for an argument that is not a string.\<close>

definition DN_equals_dn :: "dn \<Rightarrow> dn \<Rightarrow> bool" where
  "DN_equals_dn this dn =
     (if DN_length this \<noteq> DN_length dn then False else DN_equals_loop this dn 0)"

definition DN_equals :: "nat \<Rightarrow> dn \<Rightarrow> dn dnarg \<Rightarrow> (error + bool) option" where
  "DN_equals fresh this arg =
     (case arg of
        ArgString s \<Rightarrow>
          (case DN_fromString fresh (VString s) of
             None \<Rightarrow> None
           | Some (Inl e) \<Rightarrow> Some (Inl e)
           | Some (Inr parsedDn) \<Rightarrow> Some (Inr (DN_equals_dn parsedDn this)))
      | ArgDn dn \<Rightarrow> Some (Inr (DN_equals_dn this dn)))"

function DN_parentOf_loop :: "dn \<Rightarrow> dn \<Rightarrow> int \<Rightarrow> int \<Rightarrow> bool" where
  "DN_parentOf_loop this dn numberOfElementsDifferent i =
     (if i \<ge> 0 then
        (let myRdn = this ! nat i;
             theirRdn = DN_rdnAt dn (i + numberOfElementsDifferent)
         in if RDN_equals myRdn theirRdn = False then False
            else DN_parentOf_loop this dn numberOfElementsDifferent (i - 1))
      else True)"
  by pat_completeness auto
termination
  by (relation "measure (\<lambda>(this, dn, numberOfElementsDifferent, i). nat (i + 1))") auto

declare DN_parentOf_loop.simps [simp del]

text \<open>The body of \<open>parentOf\<close> for an argument that is not a string.\<close>

definition DN_parentOf_dn :: "dn \<Rightarrow> dn \<Rightarrow> bool" where
  "DN_parentOf_dn this dn =
     (if DN_length this \<ge> DN_length dn then False
      else
        (let numberOfElementsDifferent = int (DN_length dn) - int (DN_length this)
         in DN_parentOf_loop this dn numberOfElementsDifferent (int (DN_length this) - 1)))"

definition DN_parentOf :: "nat \<Rightarrow> dn \<Rightarrow> dn dnarg \<Rightarrow> (error + bool) option" where
  "DN_parentOf fresh this arg =
     (case arg of
        ArgString s \<Rightarrow>
          (case DN_fromString fresh (VString s) of
             None \<Rightarrow> None
           | Some (Inl e) \<Rightarrow> Some (Inl e)
           | Some (Inr parsedDn) \<Rightarrow> Some (Inr (DN_parentOf_dn this parsedDn)))
      | ArgDn dn \<Rightarrow> Some (Inr (DN_parentOf_dn this dn)))"

definition DN_childOf :: "nat \<Rightarrow> dn \<Rightarrow> dn dnarg \<Rightarrow> (error + bool) option" where
  "DN_childOf fresh this arg =
     (case arg of
        ArgString s \<Rightarrow>
          (case DN_fromString fresh (VString s) of
             None \<Rightarrow> None
           | Some (Inl e) \<Rightarrow> Some (Inl e)
           | Some (Inr parsedDn) \<Rightarrow> DN_parentOf fresh parsedDn (ArgDn this))
      | ArgDn dn \<Rightarrow> DN_parentOf fresh dn (ArgDn this))"

text \<open>
  \<open>parent\<close>: the first element is removed, the rest is given to the constructor and
  the element is put back. The result is the state of the receiver afterwards and the
  new instance, or \<open>undefined\<close> for an empty receiver.
\<close>

definition DN_parent :: "dn \<Rightarrow> error + (dn \<times> dn option)" where
  "DN_parent this =
     (if DN_length this = 0 then Inr (this, None)
      else
        (let save = hd this; shifted = tl this in
         case DN_new (Array (map Instance shifted)) of
           Inl e \<Rightarrow> Inl e
         | Inr dn \<Rightarrow> Inr (save # shifted, Some dn)))"

section \<open>Instances as objects: the store\<close>

text \<open>
  An \<open>RDN\<close> or \<open>DN\<close> instance is an object with an identity. The store maps the
  reference of an \<open>RDN\<close> instance to its attribute map and the reference of a \<open>DN\<close>
  instance to its private array, which holds references to \<open>RDN\<close> instances.
  \<open>nextRef\<close> is the reference the next new object receives.
\<close>

record heap =
  rdnObjects :: "nat \<Rightarrow> rdn option"
  dnObjects :: "nat \<Rightarrow> nat list option"
  nextRef :: nat

definition emptyHeap :: heap where
  "emptyHeap = \<lparr>rdnObjects = (\<lambda>_. None), dnObjects = (\<lambda>_. None), nextRef = 0\<rparr>"

definition allocRdn :: "heap \<Rightarrow> rdn \<Rightarrow> heap \<times> nat" where
  "allocRdn h r = (h\<lparr>rdnObjects := (rdnObjects h)(nextRef h \<mapsto> r), nextRef := nextRef h + 1\<rparr>, nextRef h)"

definition allocDn :: "heap \<Rightarrow> nat list \<Rightarrow> heap \<times> nat" where
  "allocDn h rs = (h\<lparr>dnObjects := (dnObjects h)(nextRef h \<mapsto> rs), nextRef := nextRef h + 1\<rparr>, nextRef h)"

text \<open>The private array of a \<open>DN\<close> instance and the states of the instances in it.\<close>

definition rdnsOf :: "heap \<Rightarrow> nat \<Rightarrow> nat list" where
  "rdnsOf h d = (case dnObjects h d of Some rs \<Rightarrow> rs | None \<Rightarrow> [])"

definition rdnState :: "heap \<Rightarrow> nat \<Rightarrow> rdn" where
  "rdnState h r = (case rdnObjects h r of Some x \<Rightarrow> x | None \<Rightarrow> [])"

definition dnState :: "heap \<Rightarrow> nat \<Rightarrow> dn" where
  "dnState h d = map (rdnState h) (rdnsOf h d)"

definition setRdns :: "heap \<Rightarrow> nat \<Rightarrow> nat list \<Rightarrow> heap" where
  "setRdns h d rs = h\<lparr>dnObjects := (dnObjects h)(d \<mapsto> rs)\<rparr>"

text \<open>\<open>setAttribute\<close> on the instance \<open>r\<close>.\<close>

definition heap_setAttribute :: "heap \<Rightarrow> nat \<Rightarrow> jsvalue \<Rightarrow> jsvalue \<Rightarrow> options \<Rightarrow> error + heap" where
  "heap_setAttribute h r name val opts =
     (case setAttribute (rdnState h r) name val opts of
        Inl e \<Rightarrow> Inl e
      | Inr this' \<Rightarrow> Inr (h\<lparr>rdnObjects := (rdnObjects h)(r \<mapsto> this')\<rparr>))"

text \<open>
  The constructor of \<open>DN\<close>: an element that is an \<open>RDN\<close> instance is stored as it
  is, by reference; for a plain object a new \<open>RDN\<close> instance is made.
\<close>

fun heap_mapToRdn :: "heap \<Rightarrow> nat rdnlike list \<Rightarrow> error + (heap \<times> nat list)" where
  "heap_mapToRdn h [] = Inr (h, [])"
| "heap_mapToRdn h (r # rs) =
     (case r of
        Instance x \<Rightarrow>
          (case heap_mapToRdn h rs of Inl e \<Rightarrow> Inl e | Inr (h', xs) \<Rightarrow> Inr (h', x # xs))
      | PlainObject obj \<Rightarrow>
          (case RDN_new obj of
             Inl e \<Rightarrow> Inl e
           | Inr new \<Rightarrow>
               (case heap_mapToRdn (fst (allocRdn h new)) rs of
                  Inl e \<Rightarrow> Inl e
                | Inr (h', xs) \<Rightarrow> Inr (h', snd (allocRdn h new) # xs)))
      | NotAnObject \<Rightarrow>
          (case heap_mapToRdn (fst (allocRdn h [])) rs of
             Inl e \<Rightarrow> Inl e
           | Inr (h', xs) \<Rightarrow> Inr (h', snd (allocRdn h []) # xs)))"

definition heap_DN_new :: "heap \<Rightarrow> nat rdns \<Rightarrow> error + (heap \<times> nat)" where
  "heap_DN_new h input =
     (case input of
        NotAnArray \<Rightarrow> Inl (Error (js ''rdns must be an array''))
      | Array rdns \<Rightarrow>
          (let hasNonRdn = list_ex (\<lambda>r. isRdn r = False) rdns in
           if hasNonRdn = True then Inl (Error (js ''rdns must be an array of RDN objects''))
           else (case heap_mapToRdn h rdns of
                   Inl e \<Rightarrow> Inl e
                 | Inr (h', rs) \<Rightarrow> Inr (allocDn h' rs))))"

definition heap_clone :: "heap \<Rightarrow> nat \<Rightarrow> error + (heap \<times> nat)" where
  "heap_clone h this = heap_DN_new h (Array (map Instance (rdnsOf h this)))"

definition heap_rdnAt :: "heap \<Rightarrow> nat \<Rightarrow> int \<Rightarrow> nat option" where
  "heap_rdnAt h this index =
     (if 0 \<le> index \<and> index < int (length (rdnsOf h this)) then Some (rdnsOf h this ! nat index)
      else None)"

text \<open>The list operations; \<open>push\<close> and \<open>unshift\<close> return the new length.\<close>

definition heap_push :: "heap \<Rightarrow> nat \<Rightarrow> nat rdnlike \<Rightarrow> error + (heap \<times> nat)" where
  "heap_push h this rdn =
     (case rdn of
        Instance r \<Rightarrow> Inr (setRdns h this (rdnsOf h this @ [r]), length (rdnsOf h this) + 1)
      | _ \<Rightarrow> Inl (Error (js ''rdn must be a RDN instance'')))"

definition heap_unshift :: "heap \<Rightarrow> nat \<Rightarrow> nat rdnlike \<Rightarrow> error + (heap \<times> nat)" where
  "heap_unshift h this rdn =
     (case rdn of
        Instance r \<Rightarrow> Inr (setRdns h this (r # rdnsOf h this), length (rdnsOf h this) + 1)
      | _ \<Rightarrow> Inl (Error (js ''rdn must be a RDN instance'')))"

definition heap_pop :: "heap \<Rightarrow> nat \<Rightarrow> heap \<times> nat option" where
  "heap_pop h this =
     (case rdnsOf h this of
        [] \<Rightarrow> (setRdns h this [], None)
      | r # rs \<Rightarrow> (setRdns h this (butlast (r # rs)), Some (last (r # rs))))"

definition heap_shift :: "heap \<Rightarrow> nat \<Rightarrow> heap \<times> nat option" where
  "heap_shift h this =
     (case rdnsOf h this of
        [] \<Rightarrow> (setRdns h this [], None)
      | r # rs \<Rightarrow> (setRdns h this rs, Some r))"

definition heap_reverse :: "heap \<Rightarrow> nat \<Rightarrow> heap \<times> nat" where
  "heap_reverse h this = (setRdns h this (rev (rdnsOf h this)), this)"

text \<open>The hierarchy operations read the states of the instances involved.\<close>

definition resolveArg :: "heap \<Rightarrow> nat dnarg \<Rightarrow> dn dnarg" where
  "resolveArg h arg = (case arg of ArgString s \<Rightarrow> ArgString s | ArgDn d \<Rightarrow> ArgDn (dnState h d))"

definition heap_equals :: "heap \<Rightarrow> nat \<Rightarrow> nat \<Rightarrow> nat dnarg \<Rightarrow> (error + bool) option" where
  "heap_equals h fresh this arg = DN_equals fresh (dnState h this) (resolveArg h arg)"

definition heap_parentOf :: "heap \<Rightarrow> nat \<Rightarrow> nat \<Rightarrow> nat dnarg \<Rightarrow> (error + bool) option" where
  "heap_parentOf h fresh this arg = DN_parentOf fresh (dnState h this) (resolveArg h arg)"

definition heap_childOf :: "heap \<Rightarrow> nat \<Rightarrow> nat \<Rightarrow> nat dnarg \<Rightarrow> (error + bool) option" where
  "heap_childOf h fresh this arg = DN_childOf fresh (dnState h this) (resolveArg h arg)"

text \<open>
  \<open>parent\<close>: \<open>shift\<close>, the constructor on the array that is left, \<open>unshift\<close>. The
  result is the new instance, or \<open>undefined\<close> for an empty receiver.
\<close>

definition heap_parent :: "heap \<Rightarrow> nat \<Rightarrow> error + (heap \<times> nat option)" where
  "heap_parent h this =
     (if length (rdnsOf h this) = 0 then Inr (h, None)
      else
        (case heap_shift h this of
           (h1, save) \<Rightarrow>
             (case heap_DN_new h1 (Array (map Instance (rdnsOf h1 this))) of
                Inl e \<Rightarrow> Inl e
              | Inr (h2, dn) \<Rightarrow>
                  (case heap_unshift h2 this (case save of Some r \<Rightarrow> Instance r | None \<Rightarrow> NotAnObject) of
                     Inl e \<Rightarrow> Inl e
                   | Inr (h3, n) \<Rightarrow> Inr (h3, Some dn)))))"

text \<open>The state of the instance \<open>parent\<close> returns.\<close>

definition parentState :: "error + (heap \<times> nat option) \<Rightarrow> error + dn option" where
  "parentState res = (case res of Inl e \<Rightarrow> Inl e | Inr (h, r) \<Rightarrow> Inr (map_option (dnState h) r))"

text \<open>A list operation applied to an instance; one that throws changes nothing.\<close>

datatype mutation = Push "nat rdnlike" | Unshift "nat rdnlike" | Pop | Shift | Reverse

definition applyMutation :: "heap \<Rightarrow> nat \<Rightarrow> mutation \<Rightarrow> heap" where
  "applyMutation h d m =
     (case m of
        Push r \<Rightarrow> (case heap_push h d r of Inl e \<Rightarrow> h | Inr (h', n) \<Rightarrow> h')
      | Unshift r \<Rightarrow> (case heap_unshift h d r of Inl e \<Rightarrow> h | Inr (h', n) \<Rightarrow> h')
      | Pop \<Rightarrow> fst (heap_pop h d)
      | Shift \<Rightarrow> fst (heap_shift h d)
      | Reverse \<Rightarrow> fst (heap_reverse h d))"

definition applyMutations :: "heap \<Rightarrow> nat \<Rightarrow> mutation list \<Rightarrow> heap" where
  "applyMutations h d ms = foldl (\<lambda>h m. applyMutation h d m) h ms"

text \<open>Every object of the store was allocated: its reference is below \<open>nextRef\<close>.\<close>

definition heapOk :: "heap \<Rightarrow> bool" where
  "heapOk h \<longleftrightarrow> (\<forall>d. dnObjects h d \<noteq> None \<longrightarrow> d < nextRef h)"

text \<open>
  A scenario: a source \<open>DN\<close> and another one, both \<open>cn=foo\<close> with an \<open>RDN\<close> instance
  of their own; the source is cloned and \<open>setAttribute\<close> is called on the first
  \<open>RDN\<close> of the clone. The result is \<open>source.equals(other)\<close> before and after.
\<close>

definition cloneScenario :: "((error + bool) option \<times> (error + bool) option) option" where
  "cloneScenario =
     (case heap_DN_new emptyHeap (Array [PlainObject [(js ''cn'', VString (js ''foo''))]]) of
        Inl e \<Rightarrow> None
      | Inr (h1, source) \<Rightarrow>
     (case heap_DN_new h1 (Array [PlainObject [(js ''cn'', VString (js ''foo''))]]) of
        Inl e \<Rightarrow> None
      | Inr (h2, other) \<Rightarrow>
     (case heap_clone h2 source of
        Inl e \<Rightarrow> None
      | Inr (h3, clone) \<Rightarrow>
     (case heap_rdnAt h3 clone 0 of
        None \<Rightarrow> None
      | Some r \<Rightarrow>
     (case heap_setAttribute h3 r (VString (js ''cn'')) (VString (js ''bar'')) (OptObject []) of
        Inl e \<Rightarrow> None
      | Inr h4 \<Rightarrow>
          Some (heap_equals h2 0 source (ArgDn other), heap_equals h4 0 source (ArgDn other)))))))"

section \<open>Predicates used in the statements\<close>

text \<open>The \<open>RDN\<close> instance \<open>new RDN({ name: val })\<close>.\<close>

definition simpleRdn :: "string \<Rightarrow> string \<Rightarrow> rdn" where
  "simpleRdn name val =
     [(js name, \<lparr>attr_value = VString (js val), attr_name = VString (js name), attr_extra = []\<rparr>)]"

text \<open>
  A well-formed dotted-decimal string in the words of the specification: one or more
  segments joined by dots, each segment a non-empty string of digits.
\<close>

fun joinDots :: "jsstring list \<Rightarrow> jsstring" where
  "joinDots [] = []"
| "joinDots [s] = s"
| "joinDots (s # t # ss) = s @ [0x2e] @ joinDots (t # ss)"

definition dottedDecimalSpec :: "jsstring \<Rightarrow> bool" where
  "dottedDecimalSpec s \<longleftrightarrow>
     (\<exists>segs. segs \<noteq> [] \<and> (\<forall>seg \<in> set segs. seg \<noteq> [] \<and> list_all isDigit seg) \<and> s = joinDots segs)"

text \<open>
  The invariant of an \<open>RDN\<close> instance: the attribute names (the keys of its map) are
  pairwise different and each starts with an ASCII letter or is a well-formed
  dotted-decimal string.
\<close>

definition RDN_invariant :: "rdn \<Rightarrow> bool" where
  "RDN_invariant this \<longleftrightarrow>
     distinct (RDN_keys this) \<and>
     (\<forall>name \<in> set (RDN_keys this).
        (name \<noteq> [] \<and> isAlpha (hd name)) \<or> dottedDecimalSpec name)"

text \<open>A list of output tokens that holds ASCII characters only.\<close>

definition asciiTokens :: "jsstring list \<Rightarrow> bool" where
  "asciiTokens ts \<longleftrightarrow> (\<forall>t \<in> set ts. \<forall>c \<in> set t. charCode c \<le> 0x7f)"

text \<open>
  The shape of one encoded character in a buffer made from a string: one ASCII byte, or
  a lead byte with the continuation bytes its range announces.
\<close>

definition goodSeq :: "byte list \<Rightarrow> bool" where
  "goodSeq enc \<longleftrightarrow>
     (length enc = 1 \<and> hd enc < 0x80) \<or>
     (length enc = 2 \<and> 0xc0 \<le> hd enc \<and> hd enc \<le> 0xdf) \<or>
     (length enc = 3 \<and> 0xe0 \<le> hd enc \<and> hd enc \<le> 0xef) \<or>
     (length enc = 4 \<and> 0xf0 \<le> hd enc \<and> hd enc \<le> 0xf7)"

text \<open>
  A plain ASCII string: every character code is at most 0x7F, is none of the reserved
  characters \<open>" + , ; < >\<close> and is no control character.
\<close>

definition plainAscii :: "jsstring \<Rightarrow> bool" where
  "plainAscii s = list_all (\<lambda>c. charCode c \<le> 0x7f \<and> charCode c \<notin> set embeddedReservedChars
      \<and> \<not> charCode c \<le> 0x1f) s"

text \<open>No space or \<open>#\<close> at the start and no space at the end.\<close>

definition noEdgeEscape :: "jsstring \<Rightarrow> bool" where
  "noEdgeEscape s =
     (case s of
        [] \<Rightarrow> True
      | c # _ \<Rightarrow> charCode c \<noteq> 0x20 \<and> charCode c \<noteq> 0x23 \<and> charCode (last s) \<noteq> 0x20)"

text \<open>Two stores that agree on every \<open>RDN\<close> instance and on every \<open>DN\<close> instance but \<open>c\<close>.\<close>

definition sameExcept :: "nat \<Rightarrow> heap \<Rightarrow> heap \<Rightarrow> bool" where
  "sameExcept c h h' \<longleftrightarrow>
     rdnObjects h' = rdnObjects h \<and> (\<forall>d. d \<noteq> c \<longrightarrow> dnObjects h' d = dnObjects h d)"

text \<open>A store with the \<open>DN\<close> instance \<open>cn=foo,dc=com\<close> at reference 2.\<close>

definition sourceHeap :: heap where
  "sourceHeap =
     \<lparr>rdnObjects = (\<lambda>_. None)(0 \<mapsto> simpleRdn ''cn'' ''foo'', 1 \<mapsto> simpleRdn ''dc'' ''com''),
      dnObjects = (\<lambda>_. None)(2 \<mapsto> [0, 1]),
      nextRef = 3\<rparr>"

text \<open>The buffer of an ASCII literal.\<close>

definition ascii :: "string \<Rightarrow> byte list" where
  "ascii s = map of_char s"

text \<open>A run of spaces.\<close>

definition allSpaces :: "byte list \<Rightarrow> bool" where
  "allSpaces bs = list_all (\<lambda>b. b = 0x20) bs"

text \<open>What follows a value: the end of the buffer or an end character.\<close>

definition atEnd :: "byte list \<Rightarrow> bool" where
  "atEnd rest = (case rest of [] \<Rightarrow> True | b # _ \<Rightarrow> isEndChar (Some b))"

text \<open>
  Bytes without a quote and without a backslash, and outside quotes without an end
  character: the value reader appends them as they are.
\<close>

definition literalBytes :: "bool \<Rightarrow> byte list \<Rightarrow> bool" where
  "literalBytes inQuotes bs =
     list_all (\<lambda>b. b < 256 \<and> b \<noteq> 0x22 \<and> b \<noteq> 0x5c \<and> (inQuotes \<or> \<not> isEndChar (Some b))) bs"

text \<open>A descriptor: a letter, then letters, digits and hyphens.\<close>

definition descrName :: "jsstring \<Rightarrow> bool" where
  "descrName name =
     (case name of
        [] \<Rightarrow> False
      | c # cs \<Rightarrow> isAlpha c \<and> list_all (\<lambda>c. isAlpha c \<or> isDigit c \<or> charCode c = 0x2d) cs)"

text \<open>
  A plain value: ASCII characters other than the quote, the backslash and the
  separators, the first of them neither a space nor \<open>#\<close>.
\<close>

definition plainValue :: "jsstring \<Rightarrow> bool" where
  "plainValue val \<longleftrightarrow>
     list_all (\<lambda>c. charCode c < 0x80 \<and> charCode c \<notin> {0x22, 0x5c, 0x2b, 0x2c, 0x3b}) val
     \<and> (case val of [] \<Rightarrow> True | c # _ \<Rightarrow> charCode c \<noteq> 0x20 \<and> charCode c \<noteq> 0x23)"

text \<open>The failure of \<open>parseString\<close> that cites the character \<open>c\<close>.\<close>

definition abruptEnd :: "jschar \<Rightarrow> (error + pojo list) option" where
  "abruptEnd c = Some (Inl (Error (js ''rdn string ends abruptly with character: '' @ [c])))"

text \<open>
  The characters of a buffer made from a string, one list of bytes for each encoded
  character, in the cases of \<open>buffer_from_utf8\<close>.
\<close>

fun utf8Chunks :: "jsstring \<Rightarrow> byte list list" where
  "utf8Chunks [] = []"
| "utf8Chunks [u] =
     [if is_high_surrogate (unat u) \<or> is_low_surrogate (unat u) then [0xEF, 0xBF, 0xBD]
      else utf8_of_codepoint (unat u)]"
| "utf8Chunks (u # v # rest) =
     (if is_high_surrogate (unat u) \<and> is_low_surrogate (unat v) then
        utf8_of_codepoint (0x10000 + (unat u - 0xD800) * 0x400 + (unat v - 0xDC00)) # utf8Chunks rest
      else if is_high_surrogate (unat u) \<or> is_low_surrogate (unat u) then
        [0xEF, 0xBF, 0xBD] # utf8Chunks (v # rest)
      else utf8_of_codepoint (unat u) # utf8Chunks (v # rest))"

text \<open>
  A byte below 0x80 that is written as an escape: a space or \<open>#\<close> at the start of the
  value, a space at its end, a reserved character or a control character.
\<close>

definition mustEscape :: "bool \<Rightarrow> bool \<Rightarrow> byte \<Rightarrow> bool" where
  "mustEscape first final b \<longleftrightarrow>
     (first \<and> (b = 0x20 \<or> b = 0x23)) \<or> (final \<and> b = 0x20) \<or> b \<in> set embeddedReservedChars \<or> b \<le> 31"

text \<open>A backslash and the two hexadecimal digits of a byte.\<close>

definition backslashHex :: "byte \<Rightarrow> jsstring" where
  "backslashHex b = [0x5c, hex_digit (b div 16), hex_digit (b mod 16)]"

text \<open>
  What is written for one encoded character, given whether it is the first and the
  last of the value: a single byte below 0x80 that needs no escape is written as its
  character; otherwise every byte of the character is written as a backslash and two
  hexadecimal digits.
\<close>

definition written :: "bool \<Rightarrow> bool \<Rightarrow> byte list \<Rightarrow> jsstring" where
  "written first final enc =
     (if length enc = 1 \<and> hd enc < 0x80 \<and> \<not> mustEscape first final (hd enc) then [fromCharCode (hd enc)]
      else concat (map backslashHex enc))"

fun writtenAll :: "bool \<Rightarrow> byte list list \<Rightarrow> jsstring" where
  "writtenAll first [] = []"
| "writtenAll first (enc # encs) = written first (encs = []) enc @ writtenAll False encs"

text \<open>The tokens one step of the loop of \<open>escapeValue\<close> appends for one encoded character.\<close>

definition chunkTokens :: "bool \<Rightarrow> bool \<Rightarrow> byte list \<Rightarrow> jsstring list" where
  "chunkTokens first final enc =
     (if length enc = 1 \<and> \<not> mustEscape first final (hd enc) then [ [fromCharCode (hd enc)] ]
      else map toEscapedHexString enc)"

fun allTokens :: "bool \<Rightarrow> byte list list \<Rightarrow> jsstring list" where
  "allTokens first [] = []"
| "allTokens first (enc # encs) = chunkTokens first (encs = []) enc @ allTokens False encs"

text \<open>
  Equality of two attribute values in the words of the specification, made explicit for
  the two kinds of value: strings are the same when their characters are the same, and
  binary containers are the same only when they are one and the same container.
\<close>

fun sameValue :: "jsvalue \<Rightarrow> jsvalue \<Rightarrow> bool" where
  "sameValue (VString a) (VString b) = (a = b)"
| "sameValue (VBerReader r _) (VBerReader r' _) = (r = r')"
| "sameValue (VOther a) (VOther b) = (a = b)"
| "sameValue _ _ = False"

text \<open>
  Equality of two \<open>RDN\<close>s: the same number of attributes, and every attribute name of
  the first is an attribute name of the second with the same value.
\<close>

definition rdnEqual :: "rdn \<Rightarrow> rdn \<Rightarrow> bool" where
  "rdnEqual a b \<longleftrightarrow>
     length a = length b \<and>
     list_all (\<lambda>name. case (map_of a name, map_of b name) of
                 (Some x, Some y) \<Rightarrow> sameValue (attr_value x) (attr_value y)
               | _ \<Rightarrow> False) (map fst a)"

text \<open>The instance with the single attribute \<open>name\<close> whose value is a binary container.\<close>

definition hexRdn :: "string \<Rightarrow> nat \<Rightarrow> byte list \<Rightarrow> rdn" where
  "hexRdn name r bytes =
     [(js name, \<lparr>attr_value = VBerReader r bytes, attr_name = VString (js name), attr_extra = []\<rparr>)]"

section \<open>Properties of the escape encoder\<close>

lemma charCode_of_nat: "n < 65536 \<Longrightarrow> charCode (of_nat n) = n"
  by (simp add: charCode_def unat_of_nat)

lemma hex_digit_ascii: "d < 16 \<Longrightarrow> charCode (hex_digit d) \<le> 0x7f"
  unfolding hex_digit_def by (auto simp del: of_nat_add simp: charCode_of_nat)

lemma fromCharCode_ascii: "b < 0x80 \<Longrightarrow> charCode (fromCharCode b) \<le> 0x7f"
  unfolding fromCharCode_def by (simp add: charCode_of_nat)

lemma toString16_ascii: "c \<in> set (toString16 n) \<Longrightarrow> charCode c \<le> 0x7f"
proof (induction n arbitrary: c rule: toString16.induct)
  case (1 n)
  show ?case
  proof (cases "n < 16")
    case True
    with 1(2) show ?thesis by (simp add: toString16.simps [of n] hex_digit_ascii)
  next
    case False
    with 1(2) have "c \<in> set (toString16 (n div 16)) \<or> c = hex_digit (n mod 16)"
      by (auto simp: toString16.simps [of n])
    with 1(1) False show ?thesis by (auto simp: hex_digit_ascii)
  qed
qed

lemma toEscapedHexString_ascii: "c \<in> set (toEscapedHexString b) \<Longrightarrow> charCode c \<le> 0x7f"
  by (auto simp: toEscapedHexString_def padStart2_def charCode_def
      dest: toString16_ascii [unfolded charCode_def])

lemma escapeLoop_end: "escapeLoop buf (length buf) acc = Inr acc"
  by (subst escapeLoop.simps) simp

lemma escapeLoop_step1:
  assumes "i < length buf" "buf ! i < 0x80"
  shows "\<exists>ts. asciiTokens ts \<and> escapeLoop buf i acc = escapeLoop buf (i + 1) (acc @ ts)"
proof -
  let ?b = "buf ! i"
  let ?esc = "(i = 0 \<and> (?b = 0x20 \<or> ?b = 0x23)) \<or> (int i = int (length buf) - 1 \<and> ?b = 0x20)
      \<or> ?b \<in> set embeddedReservedChars \<or> ?b \<le> 31"
  let ?t = "if ?esc then toEscapedHexString ?b else [fromCharCode ?b]"
  have a: "asciiTokens [?t]"
    using assms by (auto simp: asciiTokens_def toEscapedHexString_ascii fromCharCode_ascii)
  from assms have "escapeLoop buf i acc = escapeLoop buf (i + 1) (acc @ [?t])"
    by (subst escapeLoop.simps) (auto simp: Let_def)
  with a show ?thesis by blast
qed

lemma escapeLoop_step2:
  assumes "i + 1 < length buf" "0xc0 \<le> buf ! i" "buf ! i \<le> 0xdf"
  shows "\<exists>ts. asciiTokens ts \<and> escapeLoop buf i acc = escapeLoop buf (i + 2) (acc @ ts)"
proof -
  let ?ts = "[toEscapedHexString (buf ! i), toEscapedHexString (buf ! (i + 1))]"
  have a: "asciiTokens ?ts"
    by (auto simp: asciiTokens_def toEscapedHexString_ascii)
  from assms have "escapeLoop buf i acc = escapeLoop buf (i + 2) (acc @ ?ts)"
    by (subst escapeLoop.simps) (auto simp: Let_def escapedAt_def embeddedReservedChars_def)
  with a show ?thesis by blast
qed

lemma escapeLoop_step3:
  assumes "i + 2 < length buf" "0xe0 \<le> buf ! i" "buf ! i \<le> 0xef"
  shows "\<exists>ts. asciiTokens ts \<and> escapeLoop buf i acc = escapeLoop buf (i + 3) (acc @ ts)"
proof -
  let ?ts = "[toEscapedHexString (buf ! i), toEscapedHexString (buf ! (i + 1)),
    toEscapedHexString (buf ! (i + 2))]"
  have a: "asciiTokens ?ts"
    by (auto simp: asciiTokens_def toEscapedHexString_ascii)
  from assms have "escapeLoop buf i acc = escapeLoop buf (i + 3) (acc @ ?ts)"
    by (subst escapeLoop.simps) (auto simp: Let_def escapedAt_def embeddedReservedChars_def)
  with a show ?thesis by blast
qed

lemma escapeLoop_step4:
  assumes "i + 3 < length buf" "0xf0 \<le> buf ! i" "buf ! i \<le> 0xf7"
  shows "\<exists>ts. asciiTokens ts \<and> escapeLoop buf i acc = escapeLoop buf (i + 4) (acc @ ts)"
proof -
  let ?ts = "[toEscapedHexString (buf ! i), toEscapedHexString (buf ! (i + 1)),
    toEscapedHexString (buf ! (i + 2)), toEscapedHexString (buf ! (i + 3))]"
  have a: "asciiTokens ?ts"
    by (auto simp: asciiTokens_def toEscapedHexString_ascii)
  from assms have "escapeLoop buf i acc = escapeLoop buf (i + 4) (acc @ ?ts)"
    by (subst escapeLoop.simps) (auto simp: Let_def escapedAt_def embeddedReservedChars_def)
  with a show ?thesis by blast
qed

text \<open>One encoded character is consumed whole, whatever surrounds it.\<close>

lemma goodSeq_step:
  assumes "goodSeq enc"
  shows "\<exists>ts. asciiTokens ts \<and>
    escapeLoop (pre @ enc @ rest) (length pre) acc =
    escapeLoop (pre @ enc @ rest) (length pre + length enc) (acc @ ts)"
proof -
  let ?buf = "pre @ enc @ rest"
  have "enc \<noteq> []" using assms by (auto simp: goodSeq_def)
  then have hd: "?buf ! length pre = hd enc"
    by (cases enc) (simp_all add: nth_append)
  from assms consider
      (1) "length enc = 1" "hd enc < 0x80"
    | (2) "length enc = 2" "0xc0 \<le> hd enc" "hd enc \<le> 0xdf"
    | (3) "length enc = 3" "0xe0 \<le> hd enc" "hd enc \<le> 0xef"
    | (4) "length enc = 4" "0xf0 \<le> hd enc" "hd enc \<le> 0xf7"
    unfolding goodSeq_def by blast
  then show ?thesis
  proof cases
    case 1
    then have "length pre < length ?buf" "?buf ! length pre < 0x80" using hd by auto
    from escapeLoop_step1 [OF this, of acc] 1 show ?thesis by simp
  next
    case 2
    then have "length pre + 1 < length ?buf" "0xc0 \<le> ?buf ! length pre" "?buf ! length pre \<le> 0xdf"
      using hd by auto
    from escapeLoop_step2 [OF this, of acc] 2 show ?thesis by simp
  next
    case 3
    then have "length pre + 2 < length ?buf" "0xe0 \<le> ?buf ! length pre" "?buf ! length pre \<le> 0xef"
      using hd by auto
    from escapeLoop_step3 [OF this, of acc] 3 show ?thesis by simp
  next
    case 4
    then have "length pre + 3 < length ?buf" "0xf0 \<le> ?buf ! length pre" "?buf ! length pre \<le> 0xf7"
      using hd by auto
    from escapeLoop_step4 [OF this, of acc] 4 show ?thesis by simp
  qed
qed

lemma utf8_of_codepoint_good: "cp < 0x110000 \<Longrightarrow> goodSeq (utf8_of_codepoint cp)"
  by (auto simp: goodSeq_def utf8_of_codepoint_def)

lemma replacement_good: "goodSeq [0xEF, 0xBF, 0xBD]"
  by (simp add: goodSeq_def)

lemma unat_jschar_bound: "unat (u :: jschar) < 0x10000"
  using unsigned_less [of u, where 'a = nat] by simp

text \<open>The buffer made from a non-empty string starts with one encoded character.\<close>

lemma buffer_from_utf8_split:
  assumes "s \<noteq> []"
  shows "\<exists>enc s'. goodSeq enc \<and> buffer_from_utf8 s = enc @ buffer_from_utf8 s' \<and> length s' < length s"
proof (cases s)
  case Nil
  with assms show ?thesis by simp
next
  case (Cons u t)
  have ub: "unat u < 0x110000" using unat_jschar_bound [of u] by simp
  show ?thesis
  proof (cases t)
    case Nil
    have "goodSeq (buffer_from_utf8 [u])"
      using ub by (simp add: replacement_good utf8_of_codepoint_good)
    then have "goodSeq (buffer_from_utf8 [u]) \<and> buffer_from_utf8 s = buffer_from_utf8 [u] @ buffer_from_utf8 []
        \<and> length ([] :: jsstring) < length s"
      using Cons Nil by simp
    then show ?thesis by blast
  next
    case (Cons v rest)
    note t = this
    show ?thesis
    proof (cases "is_high_surrogate (unat u) \<and> is_low_surrogate (unat v)")
      case True
      let ?cp = "0x10000 + (unat u - 0xD800) * 0x400 + (unat v - 0xDC00)"
      from True have "unat u \<le> 0xDBFF" "unat v \<le> 0xDFFF"
        by (simp_all add: is_high_surrogate_def is_low_surrogate_def)
      then have "?cp < 0x110000" by arith
      then have "goodSeq (utf8_of_codepoint ?cp)" by (rule utf8_of_codepoint_good)
      moreover have "buffer_from_utf8 s = utf8_of_codepoint ?cp @ buffer_from_utf8 rest"
        using True \<open>s = u # t\<close> t by simp
      moreover have "length rest < length s" using \<open>s = u # t\<close> t by simp
      ultimately show ?thesis by blast
    next
      case False
      let ?enc = "if is_high_surrogate (unat u) \<or> is_low_surrogate (unat u)
        then [0xEF, 0xBF, 0xBD] else utf8_of_codepoint (unat u)"
      have "goodSeq ?enc" using ub by (simp add: replacement_good utf8_of_codepoint_good)
      moreover have "buffer_from_utf8 s = ?enc @ buffer_from_utf8 (v # rest)"
        using False \<open>s = u # t\<close> t by auto
      moreover have "length (v # rest) < length s" using \<open>s = u # t\<close> t by simp
      ultimately show ?thesis by blast
    qed
  qed
qed

lemma escapeLoop_utf8:
  "\<exists>out. asciiTokens out \<and>
     escapeLoop (pre @ buffer_from_utf8 s) (length pre) acc = Inr (acc @ out)"
proof (induction "length s" arbitrary: s pre acc rule: less_induct)
  case less
  show ?case
  proof (cases "s = []")
    case True
    have "asciiTokens []" by (simp add: asciiTokens_def)
    with True show ?thesis using escapeLoop_end [of pre acc] by auto
  next
    case False
    from buffer_from_utf8_split [OF this] obtain enc s' where
      g: "goodSeq enc" and e: "buffer_from_utf8 s = enc @ buffer_from_utf8 s'"
      and l: "length s' < length s" by blast
    from goodSeq_step [OF g, of pre "buffer_from_utf8 s'" acc] obtain ts where
      ts: "asciiTokens ts"
      and st: "escapeLoop (pre @ enc @ buffer_from_utf8 s') (length pre) acc =
        escapeLoop (pre @ enc @ buffer_from_utf8 s') (length pre + length enc) (acc @ ts)"
      by blast
    from less [OF l, of "pre @ enc" "acc @ ts"] obtain out where
      out: "asciiTokens out"
      and r: "escapeLoop ((pre @ enc) @ buffer_from_utf8 s') (length (pre @ enc)) (acc @ ts)
        = Inr ((acc @ ts) @ out)" by blast
    have "asciiTokens (ts @ out)" using ts out by (auto simp: asciiTokens_def)
    moreover have "escapeLoop (pre @ buffer_from_utf8 s) (length pre) acc = Inr (acc @ ts @ out)"
      using st r e by simp
    ultimately show ?thesis by blast
  qed
qed

lemmas escape_eval = escapeValue_def js_def escapeLoop.simps toEscapedHexString_def padStart2_def
  toString16.simps hex_digit_def embeddedReservedChars_def fromCharCode_def utf8_of_codepoint_def
  is_high_surrogate_def is_low_surrogate_def escapedAt_def charCode_def

subsection \<open>What is written for each encoded character\<close>

lemma toString16_small: "n < 16 \<Longrightarrow> toString16 n = [hex_digit n]"
  by (simp add: toString16.simps [of n])

lemma padStart2_toString16:
  assumes "b < 256"
  shows "padStart2 (toString16 b) = [hex_digit (b div 16), hex_digit (b mod 16)]"
proof (cases "b < 16")
  case True
  then show ?thesis by (simp add: toString16_small padStart2_def hex_digit_def)
next
  case False
  have "b div 16 < 16" using assms by (simp add: div_less_iff_less_mult)
  then show ?thesis using False
    by (simp add: toString16.simps [of b] toString16_small padStart2_def)
qed

lemma toEscapedHexString_backslashHex: "b < 256 \<Longrightarrow> toEscapedHexString b = backslashHex b"
  by (simp add: toEscapedHexString_def padStart2_toString16 backslashHex_def)

lemma goodSeq_cases:
  assumes "goodSeq bs"
  obtains (one) b1 where "bs = [b1]" "b1 < 0x80"
  | (two) b1 b2 where "bs = [b1, b2]" "0xc0 \<le> b1" "b1 \<le> 0xdf"
  | (three) b1 b2 b3 where "bs = [b1, b2, b3]" "0xe0 \<le> b1" "b1 \<le> 0xef"
  | (four) b1 b2 b3 b4 where "bs = [b1, b2, b3, b4]" "0xf0 \<le> b1" "b1 \<le> 0xf7"
proof -
  from assms consider "length bs = 1 \<and> hd bs < 0x80" | "length bs = 2 \<and> 0xc0 \<le> hd bs \<and> hd bs \<le> 0xdf"
    | "length bs = 3 \<and> 0xe0 \<le> hd bs \<and> hd bs \<le> 0xef" | "length bs = 4 \<and> 0xf0 \<le> hd bs \<and> hd bs \<le> 0xf7"
    unfolding goodSeq_def by blast
  then show thesis
  proof cases
    case 1
    then obtain b1 where "bs = [b1]" by (cases bs) auto
    with 1 one show ?thesis by simp
  next
    case 2
    then obtain b1 b2 where "bs = [b1, b2]"
      by (cases bs; simp) (metis length_0_conv length_Suc_conv)
    with 2 two show ?thesis by simp
  next
    case 3
    then obtain b1 b2 b3 where "bs = [b1, b2, b3]"
      by (auto simp: numeral_3_eq_3 length_Suc_conv)
    with 3 three show ?thesis by simp
  next
    case 4
    then obtain b1 b2 b3 b4 where "bs = [b1, b2, b3, b4]"
      by (auto simp: numeral_eq_Suc length_Suc_conv)
    with 4 four show ?thesis by simp
  qed
qed

lemma escapeLoop_one:
  assumes "i < length buf" "buf ! i < 0x80"
  shows "escapeLoop buf i acc = escapeLoop buf (i + 1)
    (acc @ chunkTokens (i = 0) (int i = int (length buf) - 1) [buf ! i])"
  using assms
  by (subst escapeLoop.simps) (auto simp: Let_def chunkTokens_def mustEscape_def)

lemma escapeLoop_two:
  assumes "i + 1 < length buf" "0xc0 \<le> buf ! i" "buf ! i \<le> 0xdf"
  shows "escapeLoop buf i acc = escapeLoop buf (i + 2)
    (acc @ [toEscapedHexString (buf ! i), toEscapedHexString (buf ! (i + 1))])"
  using assms
  by (subst escapeLoop.simps) (auto simp: Let_def escapedAt_def embeddedReservedChars_def)

lemma escapeLoop_three:
  assumes "i + 2 < length buf" "0xe0 \<le> buf ! i" "buf ! i \<le> 0xef"
  shows "escapeLoop buf i acc = escapeLoop buf (i + 3)
    (acc @ [toEscapedHexString (buf ! i), toEscapedHexString (buf ! (i + 1)),
      toEscapedHexString (buf ! (i + 2))])"
  using assms
  by (subst escapeLoop.simps) (auto simp: Let_def escapedAt_def embeddedReservedChars_def)

lemma escapeLoop_four:
  assumes "i + 3 < length buf" "0xf0 \<le> buf ! i" "buf ! i \<le> 0xf7"
  shows "escapeLoop buf i acc = escapeLoop buf (i + 4)
    (acc @ [toEscapedHexString (buf ! i), toEscapedHexString (buf ! (i + 1)),
      toEscapedHexString (buf ! (i + 2)), toEscapedHexString (buf ! (i + 3))])"
  using assms
  by (subst escapeLoop.simps) (auto simp: Let_def escapedAt_def embeddedReservedChars_def)

text \<open>One step of the loop on one encoded character, whatever surrounds it.\<close>

lemma escapeLoop_chunk:
  assumes "goodSeq enc"
  shows "escapeLoop (pre @ enc @ rest) (length pre) acc
    = escapeLoop (pre @ enc @ rest) (length pre + length enc)
        (acc @ chunkTokens (pre = []) (rest = []) enc)"
  using assms
proof (cases rule: goodSeq_cases)
  case (one b1)
  have "length pre < length (pre @ enc @ rest)" "(pre @ enc @ rest) ! length pre < 0x80"
    using one by (simp_all add: nth_append)
  from escapeLoop_one [OF this, of acc] one show ?thesis by (simp add: nth_append)
next
  case (two b1 b2)
  have l: "length pre + length enc = length pre + 2" by (simp add: two)
  have t: "chunkTokens (pre = []) (rest = []) enc = [toEscapedHexString b1, toEscapedHexString b2]"
    by (simp add: two chunkTokens_def)
  have "length pre + 1 < length (pre @ enc @ rest)" "0xc0 \<le> (pre @ enc @ rest) ! length pre"
    "(pre @ enc @ rest) ! length pre \<le> 0xdf"
    using two by (simp_all add: nth_append)
  from escapeLoop_two [OF this, of acc] show ?thesis unfolding l t by (simp add: two nth_append)
next
  case (three b1 b2 b3)
  have l: "length pre + length enc = length pre + 3" by (simp add: three)
  have t: "chunkTokens (pre = []) (rest = []) enc
      = [toEscapedHexString b1, toEscapedHexString b2, toEscapedHexString b3]"
    by (simp add: three chunkTokens_def)
  have "length pre + 2 < length (pre @ enc @ rest)" "0xe0 \<le> (pre @ enc @ rest) ! length pre"
    "(pre @ enc @ rest) ! length pre \<le> 0xef"
    using three by (simp_all add: nth_append)
  from escapeLoop_three [OF this, of acc] show ?thesis unfolding l t by (simp add: three nth_append)
next
  case (four b1 b2 b3 b4)
  have l: "length pre + length enc = length pre + 4" by (simp add: four)
  have t: "chunkTokens (pre = []) (rest = []) enc
      = [toEscapedHexString b1, toEscapedHexString b2, toEscapedHexString b3, toEscapedHexString b4]"
    by (simp add: four chunkTokens_def)
  have "length pre + 3 < length (pre @ enc @ rest)" "0xf0 \<le> (pre @ enc @ rest) ! length pre"
    "(pre @ enc @ rest) ! length pre \<le> 0xf7"
    using four by (simp_all add: nth_append)
  from escapeLoop_four [OF this, of acc] show ?thesis unfolding l t by (simp add: four nth_append)
qed

lemma goodSeq_nonempty: "goodSeq c \<Longrightarrow> c \<noteq> []"
  by (auto simp: goodSeq_def)

lemma concat_chunks_empty: "list_all goodSeq cs \<Longrightarrow> concat cs = [] \<longleftrightarrow> cs = []"
  by (cases cs) (auto dest: goodSeq_nonempty)

lemma escapeLoop_chunks:
  "list_all goodSeq cs \<Longrightarrow>
   escapeLoop (pre @ concat cs) (length pre) acc = Inr (acc @ allTokens (pre = []) cs)"
proof (induction cs arbitrary: pre acc)
  case Nil
  then show ?case using escapeLoop_end [of pre acc] by simp
next
  case (Cons c cs)
  then have g: "goodSeq c" and gs: "list_all goodSeq cs" by simp_all
  have ne: "(pre @ c = []) = False" using goodSeq_nonempty [OF g] by simp
  have "escapeLoop (pre @ concat (c # cs)) (length pre) acc
      = escapeLoop (pre @ c @ concat cs) (length pre) acc" by simp
  also have "\<dots> = escapeLoop (pre @ c @ concat cs) (length pre + length c)
        (acc @ chunkTokens (pre = []) (concat cs = []) c)"
    by (rule escapeLoop_chunk [OF g])
  also have "\<dots> = escapeLoop ((pre @ c) @ concat cs) (length (pre @ c))
        (acc @ chunkTokens (pre = []) (cs = []) c)"
    by (simp only: concat_chunks_empty [OF gs] append_assoc length_append)
  also have "\<dots> = Inr ((acc @ chunkTokens (pre = []) (cs = []) c) @ allTokens (pre @ c = []) cs)"
    by (rule Cons.IH [OF gs])
  finally show ?case unfolding ne by simp
qed

lemma concat_utf8Chunks: "concat (utf8Chunks s) = buffer_from_utf8 s"
  by (induction s rule: utf8Chunks.induct) simp_all

lemma utf8_of_codepoint_bytes: "cp < 0x110000 \<Longrightarrow> list_all (\<lambda>b. b < 256) (utf8_of_codepoint cp)"
  by (auto simp: utf8_of_codepoint_def div_less_iff_less_mult)

lemma pair_codepoint_bound:
  assumes "is_high_surrogate h" "is_low_surrogate l"
  shows "0x10000 + (h - 0xD800) * 0x400 + (l - 0xDC00) < 0x110000"
  using assms by (auto simp: is_high_surrogate_def is_low_surrogate_def)

lemma utf8Chunks_good:
  "list_all (\<lambda>enc. goodSeq enc \<and> list_all (\<lambda>b. b < 256) enc) (utf8Chunks s)"
proof (induction s rule: utf8Chunks.induct)
  case 1
  then show ?case by simp
next
  case (2 u)
  have "unat u < 0x110000" using unat_jschar_bound [of u] by simp
  then show ?case by (simp add: replacement_good utf8_of_codepoint_good utf8_of_codepoint_bytes)
next
  case (3 u v rest)
  have b: "unat u < 0x110000" using unat_jschar_bound [of u] by simp
  show ?case
  proof (cases "is_high_surrogate (unat u) \<and> is_low_surrogate (unat v)")
    case True
    then show ?thesis
      using 3 pair_codepoint_bound [of "unat u" "unat v"]
      by (simp add: utf8_of_codepoint_good utf8_of_codepoint_bytes)
  next
    case False
    then show ?thesis
      using 3 b by (auto simp: replacement_good utf8_of_codepoint_good utf8_of_codepoint_bytes)
  qed
qed

lemma concat_chunkTokens:
  assumes "goodSeq enc" "list_all (\<lambda>b. b < 256) enc"
  shows "concat (chunkTokens first final enc) = written first final enc"
proof -
  have m: "map toEscapedHexString enc = map backslashHex enc"
    using assms(2) by (induction enc) (simp_all add: toEscapedHexString_backslashHex)
  from assms(1) show ?thesis
  proof (cases rule: goodSeq_cases)
    case (one b1)
    then show ?thesis using m by (simp add: chunkTokens_def written_def)
  next
    case (two b1 b2)
    then show ?thesis using m by (simp add: chunkTokens_def written_def)
  next
    case (three b1 b2 b3)
    then show ?thesis using m by (simp add: chunkTokens_def written_def)
  next
    case (four b1 b2 b3 b4)
    then show ?thesis using m by (simp add: chunkTokens_def written_def)
  qed
qed

lemma concat_allTokens:
  "list_all (\<lambda>enc. goodSeq enc \<and> list_all (\<lambda>b. b < 256) enc) cs \<Longrightarrow>
   concat (allTokens first cs) = writtenAll first cs"
  by (induction cs arbitrary: first) (simp_all add: concat_chunkTokens)

lemma escapeValue_written: "escapeValue (VString s) = Inr (writtenAll True (utf8Chunks s))"
proof -
  have g: "list_all goodSeq (utf8Chunks s)"
    using utf8Chunks_good [of s] by (simp add: list_all_iff)
  from escapeLoop_chunks [OF g, of "[]" "[]"] show ?thesis
    by (simp add: escapeValue_def concat_utf8Chunks concat_allTokens [OF utf8Chunks_good])
qed

text \<open>
  Claim C10. For every string, \<open>escapeValue\<close> returns the concatenation of what is
  written for each encoded character of the UTF-8 buffer made from the string. A
  character encoded as one byte below 0x80 is written as itself or as a backslash and
  two hexadecimal digits; for every other encoded character, hence for every byte from
  0x80 on, each byte of the character is written as a backslash and two hexadecimal
  digits. Every character of the result has a code of at most 0x7F.
\<close>

theorem escapeValue_ascii_only:
  "escapeValue (VString s) = Inr (writtenAll True (utf8Chunks s))
   \<and> concat (utf8Chunks s) = buffer_from_utf8 s
   \<and> list_all (\<lambda>c. charCode c \<le> 0x7f) (writtenAll True (utf8Chunks s))"
proof -
  from escapeLoop_utf8 [of "[]" s "[]"] obtain out where
    a: "asciiTokens out" and e: "escapeLoop (buffer_from_utf8 s) 0 [] = Inr out" by auto
  have w: "escapeValue (VString s) = Inr (writtenAll True (utf8Chunks s))"
    by (rule escapeValue_written)
  have "escapeValue (VString s) = Inr (concat out)" by (simp add: escapeValue_def e)
  with w have "writtenAll True (utf8Chunks s) = concat out" by simp
  moreover have "list_all (\<lambda>c. charCode c \<le> 0x7f) (concat out)"
    using a by (auto simp: asciiTokens_def list_all_iff)
  ultimately show ?thesis using w by (simp add: concat_utf8Chunks)
qed

text \<open>
  The string \<open>a\<close>, U+00E9 is encoded as the characters \<open>61\<close> and \<open>C3 A9\<close> and
  becomes \<open>a\c3\a9\<close>.
\<close>

theorem escapeValue_ascii_only_witness:
  "utf8Chunks [0x61, 0xe9] = [[0x61], [0xc3, 0xa9]]
   \<and> writtenAll True [[0x61], [0xc3, 0xa9]] = 0x61 # 0x5c # js ''c3'' @ 0x5c # js ''a9''
   \<and> escapeValue (VString [0x61, 0xe9]) = Inr (0x61 # 0x5c # js ''c3'' @ 0x5c # js ''a9'')
   \<and> list_all (\<lambda>c. charCode c \<le> 0x7f) (0x61 # 0x5c # js ''c3'' @ 0x5c # js ''a9'')"
proof -
  have c: "utf8Chunks [0x61, 0xe9] = [[0x61], [0xc3, 0xa9]]"
    by (simp add: utf8_of_codepoint_def is_high_surrogate_def is_low_surrogate_def)
  have w: "writtenAll True [[0x61], [0xc3, 0xa9]] = 0x61 # 0x5c # js ''c3'' @ 0x5c # js ''a9''"
    by (simp add: written_def mustEscape_def embeddedReservedChars_def backslashHex_def hex_digit_def
        fromCharCode_def js_def)
  from escapeValue_ascii_only [of "[0x61, 0xe9]"] show ?thesis
    unfolding c w by (simp add: c w)
qed

lemma buffer_from_utf8_ascii:
  "\<forall>c \<in> set s. charCode c \<le> 0x7f \<Longrightarrow> buffer_from_utf8 s = map charCode s"
  by (induction s rule: buffer_from_utf8.induct)
    (auto simp: charCode_def is_high_surrogate_def is_low_surrogate_def utf8_of_codepoint_def)

lemma fromCharCode_charCode: "fromCharCode (charCode c) = c"
  by (simp add: fromCharCode_def charCode_def)

lemma escapeLoop_plain:
  assumes "plainAscii s" "noEdgeEscape s"
  shows "i \<le> length s \<Longrightarrow>
    escapeLoop (map charCode s) i acc = Inr (acc @ map (\<lambda>c. [c]) (drop i s))"
proof (induction "length s - i" arbitrary: i acc)
  case 0
  then have "i = length s" by simp
  then show ?case using escapeLoop_end [of "map charCode s" acc] by simp
next
  case (Suc n)
  then have i: "i < length s" by simp
  let ?b = "charCode (s ! i)"
  from assms(1) i have p: "?b \<le> 0x7f" "?b \<notin> set embeddedReservedChars" "\<not> ?b \<le> 0x1f"
    by (simp_all add: plainAscii_def list_all_length)
  from i obtain c t where s: "s = c # t" by (cases s) auto
  from assms(2) s have e: "charCode (hd s) \<noteq> 0x20" "charCode (hd s) \<noteq> 0x23" "charCode (last s) \<noteq> 0x20"
    by (simp_all add: noEdgeEscape_def)
  have first: "i = 0 \<Longrightarrow> ?b \<noteq> 0x20 \<and> ?b \<noteq> 0x23"
    using e s by (simp add: hd_conv_nth)
  have lst: "int i = int (length s) - 1 \<Longrightarrow> ?b \<noteq> 0x20"
  proof -
    assume "int i = int (length s) - 1"
    then have "i = length s - 1" by simp
    then have "s ! i = last s" using s by (simp add: last_conv_nth)
    with e show ?thesis by simp
  qed
  have step: "escapeLoop (map charCode s) i acc =
      escapeLoop (map charCode s) (i + 1) (acc @ [ [fromCharCode ?b] ])"
    using i p first lst by (subst escapeLoop.simps) (auto simp: Let_def)
  have "n = length s - (i + 1)" "i + 1 \<le> length s" using Suc(2) i by simp_all
  from Suc(1) [OF this] have "escapeLoop (map charCode s) (i + 1) (acc @ [ [fromCharCode ?b] ])
      = Inr ((acc @ [ [fromCharCode ?b] ]) @ map (\<lambda>c. [c]) (drop (i + 1) s))" .
  with step show ?case
    using i by (simp add: fromCharCode_charCode Cons_nth_drop_Suc [symmetric])
qed

lemma concat_singletons: "concat (map (\<lambda>c. [c]) s) = s"
  by (induction s) simp_all

text \<open>
  Claim C8, as amended. \<open>escapeValue\<close> returns a string unchanged when the string is
  plain ASCII without reserved and control characters and, in addition, does not start
  with a space or \<open>#\<close> and does not end with a space.
\<close>

theorem escapeValue_identity_on_plain:
  assumes "plainAscii s" "noEdgeEscape s"
  shows "escapeValue (VString s) = Inr s"
proof -
  from assms(1) have a: "\<forall>c \<in> set s. charCode c \<le> 0x7f"
    by (simp add: plainAscii_def list_all_iff)
  from escapeLoop_plain [OF assms, of 0 "[]"] show ?thesis
    by (simp add: escapeValue_def buffer_from_utf8_ascii [OF a] concat_singletons)
qed

theorem escapeValue_identity_witness:
  "plainAscii (js ''foo bar'') \<and> noEdgeEscape (js ''foo bar'')
    \<and> escapeValue (VString (js ''foo bar'')) = Inr (js ''foo bar'')"
proof -
  have a: "plainAscii (js ''foo bar'')"
    by (simp add: plainAscii_def js_def charCode_def embeddedReservedChars_def)
  have b: "noEdgeEscape (js ''foo bar'')"
    by (simp add: noEdgeEscape_def js_def charCode_def)
  from escapeValue_identity_on_plain [OF a b] a b show ?thesis by simp
qed

text \<open>
  The claim as stated fails: \<open>#foo\<close> is plain ASCII without reserved and control
  characters, and its leading \<open>#\<close> is escaped.
\<close>

theorem escapeValue_identity_counterexample:
  "plainAscii (js ''#foo'') \<and> escapeValue (VString (js ''#foo'')) = Inr (0x5c # js ''23foo'')
   \<and> escapeValue (VString (js ''#foo'')) \<noteq> Inr (js ''#foo'')"
  by (simp add: plainAscii_def escape_eval)

section \<open>Properties of the hierarchy operations\<close>

lemma DN_parentOf_loop_char:
  assumes "length this < length dn"
  shows "- 1 \<le> i \<Longrightarrow> i < int (length this) \<Longrightarrow>
    DN_parentOf_loop this dn (int (length dn) - int (length this)) i
      = (\<forall>j. int j \<le> i \<longrightarrow> RDN_equals (this ! j) (Some (dn ! (j + (length dn - length this)))))"
proof (induction "nat (i + 1)" arbitrary: i)
  case 0
  then have "i = - 1" by simp
  then show ?case by (subst DN_parentOf_loop.simps) simp
next
  case (Suc n)
  then have i: "0 \<le> i" by simp
  let ?d = "int (length dn) - int (length this)"
  have at: "DN_rdnAt dn (i + ?d) = Some (dn ! (nat i + (length dn - length this)))"
    using i Suc.prems assms by (simp add: DN_rdnAt_def nat_add_distrib nat_diff_distrib)
  have ih: "DN_parentOf_loop this dn ?d (i - 1)
      = (\<forall>j. int j \<le> i - 1 \<longrightarrow> RDN_equals (this ! j) (Some (dn ! (j + (length dn - length this)))))"
    using Suc by (intro Suc.hyps(1)) simp_all
  have split: "(\<forall>j. int j \<le> i \<longrightarrow> P j) = (P (nat i) \<and> (\<forall>j. int j \<le> i - 1 \<longrightarrow> P j))" for P
  proof -
    have "int j \<le> i \<longleftrightarrow> j = nat i \<or> int j \<le> i - 1" for j using i by auto
    then show ?thesis by auto
  qed
  show ?case
    using i by (subst DN_parentOf_loop.simps) (auto simp: Let_def at ih split [where P = "\<lambda>j. RDN_equals (this ! j) (Some (dn ! (j + (length dn - length this))))"])
qed

lemma DN_parentOf_dn_char:
  "DN_parentOf_dn this dn \<longleftrightarrow>
     length this < length dn \<and>
     (\<forall>i < length this. RDN_equals (this ! i) (Some (dn ! (i + (length dn - length this)))))"
proof (cases "length this < length dn")
  case False
  then show ?thesis by (simp add: DN_parentOf_dn_def DN_length_def)
next
  case True
  have "(\<forall>j. int j \<le> int (length this) - 1 \<longrightarrow> P j) = (\<forall>i < length this. P i)" for P
    by (auto simp: less_eq_Suc_le) 
  with True DN_parentOf_loop_char [OF True, of "int (length this) - 1"] show ?thesis
    by (simp add: DN_parentOf_dn_def DN_length_def Let_def)
qed

subsection \<open>What \<open>RDN.equals\<close> decides\<close>

lemma strictEquals_sameValue: "strictEquals (Some v) (Some w) = sameValue v w"
  by (cases v; cases w) simp_all

lemma RDN_equals_loop_char:
  "RDN_equals_loop this ks rdn
    = list_all (\<lambda>name. case (map_of this name, map_of rdn name) of
                 (Some x, Some y) \<Rightarrow> sameValue (attr_value x) (attr_value y)
               | _ \<Rightarrow> False) ks"
proof (induction ks)
  case Nil
  then show ?case by simp
next
  case (Cons k ks)
  have "(RDN_has rdn k \<and> strictEquals (RDN_getValue this k) (RDN_getValue rdn k))
      = (case (map_of this k, map_of rdn k) of
           (Some x, Some y) \<Rightarrow> sameValue (attr_value x) (attr_value y)
         | _ \<Rightarrow> False)"
    by (cases "map_of this k"; cases "map_of rdn k")
      (simp_all add: RDN_has_def RDN_getValue_def strictEquals_sameValue)
  with Cons show ?case by auto
qed

lemma RDN_equals_rdnEqual: "RDN_equals a (Some b) = rdnEqual a b"
  by (simp add: RDN_equals_def RDN_size_def RDN_keys_def rdnEqual_def RDN_equals_loop_char)

text \<open>Equal instances with pairwise different names have the same set of names.\<close>

lemma rdnEqual_names:
  assumes "rdnEqual a b" "distinct (map fst a)" "distinct (map fst b)"
  shows "set (map fst a) = set (map fst b)"
proof -
  have sub: "set (map fst a) \<subseteq> set (map fst b)"
  proof
    fix k assume "k \<in> set (map fst a)"
    with assms(1) have "map_of b k \<noteq> None"
      by (auto simp: rdnEqual_def list_all_iff split: option.splits)
    then show "k \<in> set (map fst b)" by (simp add: map_of_eq_None_iff)
  qed
  have "length a = length b" using assms(1) by (simp add: rdnEqual_def)
  then have "card (set (map fst b)) = card (set (map fst a))"
    using distinct_card [OF assms(2)] distinct_card [OF assms(3)] by simp
  then have "card (set (map fst b)) \<le> card (set (map fst a))" by simp
  with sub show ?thesis by (intro card_seteq) simp_all
qed

text \<open>
  Claim C2, as amended. For \<open>DN\<close> instances \<open>a\<close> and \<open>b\<close>, \<open>a.parentOf(b)\<close> is true
  exactly when \<open>b\<close> has strictly more elements than \<open>a\<close> and every \<open>RDN\<close> of \<open>a\<close>
  equals the \<open>RDN\<close> of \<open>b\<close> at the same distance from the last element, where two
  \<open>RDN\<close>s are equal when they have the same number of attributes and every attribute
  name of the first is in the second with the same value: strings with the same
  characters, binary containers that are one and the same container. \<open>b.childOf(a)\<close>
  returns the same value.
\<close>

theorem parentOf_iff_proper_suffix:
  "DN_parentOf fresh a (ArgDn b) =
     Some (Inr (length a < length b \<and>
       (\<forall>i < length a. rdnEqual (a ! i) (b ! (i + (length b - length a))))))
   \<and> DN_childOf fresh b (ArgDn a) = DN_parentOf fresh a (ArgDn b)"
proof -
  have body: "DN_parentOf fresh a (ArgDn b) = Some (Inr (DN_parentOf_dn a b))"
    by (simp add: DN_parentOf_def)
  have child: "DN_childOf fresh b (ArgDn a) = DN_parentOf fresh a (ArgDn b)"
    by (simp add: DN_childOf_def)
  from body child show ?thesis
    by (simp only: DN_parentOf_dn_char RDN_equals_rdnEqual)
qed

text \<open>
  Claim C9. The empty \<open>DN\<close> is the parent of every \<open>DN\<close> with at least one element,
  and every such \<open>DN\<close> is a child of the empty one.
\<close>

theorem empty_parentOf_nonempty:
  "b \<noteq> [] \<Longrightarrow> DN_parentOf fresh [] (ArgDn b) = Some (Inr True)
     \<and> DN_childOf fresh b (ArgDn []) = Some (Inr True)"
proof -
  assume "b \<noteq> []"
  then have longer: "length ([] :: dn) < length b" by simp
  have "DN_parentOf_dn [] b" using longer by (simp add: DN_parentOf_dn_char)
  then have parent: "DN_parentOf fresh [] (ArgDn b) = Some (Inr True)"
    by (simp add: DN_parentOf_def)
  have "DN_childOf fresh b (ArgDn []) = DN_parentOf fresh [] (ArgDn b)"
    by (simp add: DN_childOf_def)
  with parent show ?thesis by simp
qed

lemmas dn_eval = DN_parentOf_def DN_childOf_def DN_parentOf_dn_def DN_parentOf_loop.simps
  DN_length_def DN_rdnAt_def RDN_equals_def RDN_size_def RDN_keys_def RDN_has_def RDN_getValue_def
  simpleRdn_def js_def Let_def

theorem parentOf_witness:
  "DN_parentOf 0 [simpleRdn ''dc'' ''example'', simpleRdn ''dc'' ''com'']
      (ArgDn [simpleRdn ''ou'' ''people'', simpleRdn ''dc'' ''example'', simpleRdn ''dc'' ''com''])
     = Some (Inr True)
   \<and> DN_childOf 0 [simpleRdn ''ou'' ''people'', simpleRdn ''dc'' ''example'', simpleRdn ''dc'' ''com'']
      (ArgDn [simpleRdn ''dc'' ''example'', simpleRdn ''dc'' ''com'']) = Some (Inr True)
   \<and> DN_parentOf 0 [simpleRdn ''dc'' ''example'', simpleRdn ''dc'' ''com'']
      (ArgDn [simpleRdn ''ou'' ''people'', simpleRdn ''dc'' ''EXAMPLE'', simpleRdn ''dc'' ''com''])
     = Some (Inr False)"
proof -
  let ?a = "[simpleRdn ''dc'' ''example'', simpleRdn ''dc'' ''com'']"
  let ?b = "[simpleRdn ''ou'' ''people'', simpleRdn ''dc'' ''example'', simpleRdn ''dc'' ''com'']"
  let ?c = "[simpleRdn ''ou'' ''people'', simpleRdn ''dc'' ''EXAMPLE'', simpleRdn ''dc'' ''com'']"
  have r: "length ?a < length ?b \<and>
      (\<forall>i < length ?a. rdnEqual (?a ! i) (?b ! (i + (length ?b - length ?a))))"
    by (simp add: All_less_Suc rdnEqual_def simpleRdn_def js_def)
  have n: "\<not> (\<forall>i < length ?a. rdnEqual (?a ! i) (?c ! (i + (length ?c - length ?a))))"
    by (simp add: All_less_Suc rdnEqual_def simpleRdn_def js_def)
  from parentOf_iff_proper_suffix [of 0 ?a ?b] parentOf_iff_proper_suffix [of 0 ?a ?c] r n
  show ?thesis by simp
qed

theorem empty_parentOf_witness:
  "[simpleRdn ''cn'' ''foo''] \<noteq> []
   \<and> DN_parentOf 0 [] (ArgDn [simpleRdn ''cn'' ''foo'']) = Some (Inr True)
   \<and> DN_childOf 0 [simpleRdn ''cn'' ''foo''] (ArgDn []) = Some (Inr True)"
  using empty_parentOf_nonempty [of "[simpleRdn ''cn'' ''foo'']" 0] by simp

section \<open>Properties of the \<open>RDN\<close> class\<close>

text \<open>\<open>isDottedDecimal\<close> decides the dotted-decimal strings of the specification.\<close>

lemma splitOn_nonempty: "splitOn sep s \<noteq> []"
  by (induction s) auto

lemma joinDots_Cons: "joinDots ((c # p) # ps) = c # joinDots (p # ps)"
  by (cases ps) simp_all

lemma joinDots_splitOn: "joinDots (splitOn 0x2e s) = s"
proof (induction s)
  case Nil
  then show ?case by simp
next
  case (Cons c cs)
  obtain p ps where x: "splitOn 0x2e cs = p # ps"
    using splitOn_nonempty [of "0x2e" cs] by (cases "splitOn 0x2e cs") auto
  with Cons show ?case by (auto simp: joinDots_Cons)
qed

lemma splitOn_no_sep: "sep \<notin> set a \<Longrightarrow> splitOn sep a = [a]"
  by (induction a) auto

lemma splitOn_append_sep: "sep \<notin> set a \<Longrightarrow> splitOn sep (a @ sep # rest) = a # splitOn sep rest"
  by (induction a) auto

lemma splitOn_joinDots:
  "segs \<noteq> [] \<Longrightarrow> \<forall>seg \<in> set segs. 0x2e \<notin> set seg \<Longrightarrow> splitOn 0x2e (joinDots segs) = segs"
proof (induction segs rule: joinDots.induct)
  case 1
  then show ?case by simp
next
  case (2 s)
  then show ?case by (simp add: splitOn_no_sep)
next
  case (3 s t ss)
  then show ?case by (simp add: splitOn_append_sep)
qed

lemma isDigit_not_dot: "list_all isDigit seg \<Longrightarrow> 0x2e \<notin> set seg"
  by (auto simp: list_all_iff isDigit_def charCode_def)

lemma isDottedDecimal_spec: "isDottedDecimal (VString s) \<longleftrightarrow> dottedDecimalSpec s"
proof
  assume "isDottedDecimal (VString s)"
  then have f: "filter partIsNotNumeric (splitOn 0x2e s) = []"
    by (simp add: isDottedDecimal_def Let_def)
  have "\<forall>seg \<in> set (splitOn 0x2e s). seg \<noteq> [] \<and> list_all isDigit seg"
    using f by (auto simp: filter_empty_conv partIsNotNumeric_def)
  with splitOn_nonempty [of "0x2e" s] joinDots_splitOn [of s] show "dottedDecimalSpec s"
    unfolding dottedDecimalSpec_def by metis
next
  assume "dottedDecimalSpec s"
  then obtain segs where s: "segs \<noteq> []" "\<forall>seg \<in> set segs. seg \<noteq> [] \<and> list_all isDigit seg"
    "s = joinDots segs" unfolding dottedDecimalSpec_def by blast
  then have "\<forall>seg \<in> set segs. 0x2e \<notin> set seg" by (auto dest: isDigit_not_dot)
  from splitOn_joinDots [OF s(1) this] s show "isDottedDecimal (VString s)"
    by (auto simp: isDottedDecimal_def Let_def filter_empty_conv partIsNotNumeric_def)
qed

lemma Map_set_keys:
  "map fst (Map_set k v m) = (if k \<in> set (map fst m) then map fst m else map fst m @ [k])"
  by (induction m) (auto simp: rev_image_eqI)

lemma Map_set_distinct: "distinct (map fst m) \<Longrightarrow> distinct (map fst (Map_set k v m))"
  by (simp add: Map_set_keys)

lemma Map_set_lookup: "map_of (Map_set k v m) k = Some v"
  by (induction m) auto

lemma Map_set_lookup_other: "k' \<noteq> k \<Longrightarrow> map_of (Map_set k v m) k' = map_of m k'"
  by (induction m) auto

lemma applyOptions_value: "attr_value (applyOptions os a) = attr_value a"
  by (induction os a rule: applyOptions.induct) simp_all

lemma setAttribute_Inr:
  assumes "setAttribute this name val opts = Inr this'"
  obtains n os where "name = VString n" "opts = OptObject os"
    "startsWithAlpha n \<or> isDottedDecimal (VString n)" "isStringOrBerReader val"
    "this' = Map_set n (applyOptions os \<lparr>attr_value = val, attr_name = name, attr_extra = []\<rparr>) this"
  using assms by (auto simp: setAttribute_def split: jsvalue.splits options.splits if_splits)

lemma setAttribute_invariant:
  assumes "RDN_invariant this" "setAttribute this name val opts = Inr this'"
  shows "RDN_invariant this'"
proof -
  from assms(2) obtain n os where n: "name = VString n"
    "startsWithAlpha n \<or> isDottedDecimal (VString n)"
    "this' = Map_set n (applyOptions os \<lparr>attr_value = val, attr_name = name, attr_extra = []\<rparr>) this"
    by (rule setAttribute_Inr)
  from n(2) have "(n \<noteq> [] \<and> isAlpha (hd n)) \<or> dottedDecimalSpec n"
    by (auto simp: startsWithAlpha_def isDottedDecimal_spec split: list.splits)
  with assms(1) n(3) show ?thesis
    by (auto simp: RDN_invariant_def RDN_keys_def Map_set_keys)
qed

lemma setAttribute_getValue:
  assumes "setAttribute this name val opts = Inr this'"
  shows "\<exists>n. name = VString n \<and> RDN_has this' n \<and> RDN_getValue this' n = Some val"
proof -
  from assms obtain n os where n: "name = VString n"
    "this' = Map_set n (applyOptions os \<lparr>attr_value = val, attr_name = name, attr_extra = []\<rparr>) this"
    by (rule setAttribute_Inr)
  then show ?thesis
    by (simp add: RDN_getValue_def RDN_has_def Map_set_lookup applyOptions_value)
qed

lemma setAttribute_others:
  assumes "setAttribute this (VString n) val opts = Inr this'" "k \<noteq> n"
  shows "RDN_getValue this' k = RDN_getValue this k"
proof -
  from assms(1) obtain os where
    "this' = Map_set n (applyOptions os \<lparr>attr_value = val, attr_name = VString n, attr_extra = []\<rparr>) this"
    by (auto elim: setAttribute_Inr)
  with assms(2) show ?thesis by (simp add: RDN_getValue_def Map_set_lookup_other)
qed

lemma RDN_construct_invariant:
  "RDN_invariant this \<Longrightarrow> RDN_construct entries this = Inr this' \<Longrightarrow> RDN_invariant this'"
proof (induction entries arbitrary: this)
  case Nil
  then show ?case by simp
next
  case (Cons e entries)
  obtain key val where e: "e = (key, val)" by (cases e)
  from Cons.prems(2) e obtain mid where
    m: "setAttribute this (VString key) val (OptObject []) = Inr mid"
    and r: "RDN_construct entries mid = Inr this'"
    by (auto split: sum.splits)
  from setAttribute_invariant [OF Cons.prems(1) m] have "RDN_invariant mid" .
  from Cons.IH [OF this r] show ?case .
qed

text \<open>
  Claim C5. Every \<open>RDN\<close> instance satisfies the invariant: it holds for a new empty
  instance, for every instance the constructor returns, and \<open>setAttribute\<close> preserves
  it. After \<open>setAttribute\<close> the name has the value just written (last write wins) and
  the other names keep theirs. The attribute names are the keys of the map; a name is
  valid when it starts with an ASCII letter or is a well-formed dotted-decimal string.
\<close>

theorem RDN_invariant_preserved:
  "RDN_invariant []
   \<and> (RDN_new obj = Inr r \<longrightarrow> RDN_invariant r)
   \<and> (RDN_invariant this \<and> setAttribute this name val opts = Inr this' \<longrightarrow>
        RDN_invariant this'
        \<and> (\<exists>n. name = VString n \<and> RDN_has this' n \<and> RDN_getValue this' n = Some val
             \<and> (\<forall>k. k \<noteq> n \<longrightarrow> RDN_getValue this' k = RDN_getValue this k)))"
proof -
  have e: "RDN_invariant []" by (simp add: RDN_invariant_def RDN_keys_def)
  have c: "RDN_new obj = Inr r \<longrightarrow> RDN_invariant r"
    using RDN_construct_invariant [OF e, of obj r] by (simp add: RDN_new_def)
  have s: "RDN_invariant this \<and> setAttribute this name val opts = Inr this' \<longrightarrow>
        RDN_invariant this'
        \<and> (\<exists>n. name = VString n \<and> RDN_has this' n \<and> RDN_getValue this' n = Some val
             \<and> (\<forall>k. k \<noteq> n \<longrightarrow> RDN_getValue this' k = RDN_getValue this k))"
  proof (intro impI, elim conjE)
    assume i: "RDN_invariant this" and a: "setAttribute this name val opts = Inr this'"
    from setAttribute_getValue [OF a] obtain n where n: "name = VString n"
      "RDN_has this' n" "RDN_getValue this' n = Some val" by blast
    from a n(1) have "\<forall>k. k \<noteq> n \<longrightarrow> RDN_getValue this' k = RDN_getValue this k"
      by (auto intro: setAttribute_others)
    with setAttribute_invariant [OF i a] n show "RDN_invariant this'
        \<and> (\<exists>n. name = VString n \<and> RDN_has this' n \<and> RDN_getValue this' n = Some val
             \<and> (\<forall>k. k \<noteq> n \<longrightarrow> RDN_getValue this' k = RDN_getValue this k))" by blast
  qed
  from e c s show ?thesis by blast
qed

lemmas rdn_eval = RDN_new_def setAttribute_def isStringOrBerReader_def startsWithAlpha_def isAlpha_def
  isDottedDecimal_def partIsNotNumeric_def isDigit_def charCode_def js_def Let_def
  RDN_getValue_def RDN_has_def

theorem RDN_invariant_witness:
  "RDN_new [(js ''cn'', VString (js ''foo'')), (js ''1.2.3'', VString (js ''x'')), (js ''cn'', VString (js ''bar''))]
     = Inr [(js ''cn'', \<lparr>attr_value = VString (js ''bar''), attr_name = VString (js ''cn''), attr_extra = []\<rparr>),
            (js ''1.2.3'', \<lparr>attr_value = VString (js ''x''), attr_name = VString (js ''1.2.3''), attr_extra = []\<rparr>)]
   \<and> RDN_invariant [(js ''cn'', \<lparr>attr_value = VString (js ''bar''), attr_name = VString (js ''cn''), attr_extra = []\<rparr>),
            (js ''1.2.3'', \<lparr>attr_value = VString (js ''x''), attr_name = VString (js ''1.2.3''), attr_extra = []\<rparr>)]
   \<and> setAttribute (simpleRdn ''cn'' ''foo'') (VString (js ''cn'')) (VString (js ''baz'')) (OptObject [])
     = Inr (simpleRdn ''cn'' ''baz'')
   \<and> RDN_invariant (simpleRdn ''cn'' ''baz'')
   \<and> RDN_getValue (simpleRdn ''cn'' ''baz'') (js ''cn'') = Some (VString (js ''baz''))
   \<and> setAttribute (simpleRdn ''cn'' ''foo'') (VString (js ''3cn'')) (VString (js ''baz'')) (OptObject [])
     = Inl (Error (js ''attribute name must start with an ASCII alpha character or be a numeric OID''))"
proof -
  let ?r = "[(js ''cn'', \<lparr>attr_value = VString (js ''bar''), attr_name = VString (js ''cn''), attr_extra = []\<rparr>),
            (js ''1.2.3'', \<lparr>attr_value = VString (js ''x''), attr_name = VString (js ''1.2.3''), attr_extra = []\<rparr>)]"
  let ?obj = "[(js ''cn'', VString (js ''foo'')), (js ''1.2.3'', VString (js ''x'')), (js ''cn'', VString (js ''bar''))]"
  have n: "RDN_new ?obj = Inr ?r"
    by (simp add: rdn_eval)
  have i0: "RDN_invariant (simpleRdn ''cn'' ''foo'')"
    by (simp add: RDN_invariant_def RDN_keys_def simpleRdn_def isAlpha_def charCode_def js_def)
  have s: "setAttribute (simpleRdn ''cn'' ''foo'') (VString (js ''cn'')) (VString (js ''baz'')) (OptObject [])
     = Inr (simpleRdn ''cn'' ''baz'')"
    by (simp add: simpleRdn_def rdn_eval)
  have bad: "setAttribute (simpleRdn ''cn'' ''foo'') (VString (js ''3cn'')) (VString (js ''baz'')) (OptObject [])
     = Inl (Error (js ''attribute name must start with an ASCII alpha character or be a numeric OID''))"
    by (simp add: simpleRdn_def rdn_eval)
  from RDN_invariant_preserved [of ?obj ?r "simpleRdn ''cn'' ''foo''" "VString (js ''cn'')"
      "VString (js ''baz'')" "OptObject []" "simpleRdn ''cn'' ''baz''"] n i0 s bad
  show ?thesis by auto
qed

section \<open>Properties of \<open>clone\<close>\<close>

lemma sameExcept_refl: "sameExcept c h h"
  by (simp add: sameExcept_def)

lemma sameExcept_trans: "sameExcept c h h1 \<Longrightarrow> sameExcept c h1 h2 \<Longrightarrow> sameExcept c h h2"
  by (simp add: sameExcept_def)

lemma sameExcept_setRdns: "sameExcept c h (setRdns h c rs)"
  by (simp add: sameExcept_def setRdns_def)

lemma nextRef_setRdns: "nextRef (setRdns h c rs) = nextRef h"
  by (simp add: setRdns_def)

lemma applyMutation_frame:
  "sameExcept c h (applyMutation h c m) \<and> nextRef (applyMutation h c m) = nextRef h"
  by (cases m)
    (auto simp: applyMutation_def heap_push_def heap_unshift_def heap_pop_def heap_shift_def
      heap_reverse_def sameExcept_setRdns sameExcept_refl nextRef_setRdns
      split: rdnlike.splits list.splits)

lemma applyMutations_frame:
  "sameExcept c h (applyMutations h c ms) \<and> nextRef (applyMutations h c ms) = nextRef h"
proof (induction ms arbitrary: h)
  case Nil
  then show ?case by (simp add: applyMutations_def sameExcept_refl)
next
  case (Cons m ms)
  have "applyMutations h c (m # ms) = applyMutations (applyMutation h c m) c ms"
    by (simp add: applyMutations_def)
  with Cons [of "applyMutation h c m"] applyMutation_frame [of c h m] show ?case
    by (auto intro: sameExcept_trans)
qed

lemma sameExcept_dnState: "sameExcept c h h' \<Longrightarrow> d \<noteq> c \<Longrightarrow> dnState h' d = dnState h d"
  by (simp add: sameExcept_def dnState_def rdnsOf_def rdnState_def)

lemma sameExcept_rdnsOf: "sameExcept c h h' \<Longrightarrow> d \<noteq> c \<Longrightarrow> rdnsOf h' d = rdnsOf h d"
  by (simp add: sameExcept_def rdnsOf_def)

lemma sameExcept_rdnState: "sameExcept c h h' \<Longrightarrow> rdnState h' = rdnState h"
  by (simp add: sameExcept_def rdnState_def fun_eq_iff)

lemma heap_mapToRdn_instances: "heap_mapToRdn h (map Instance rs) = Inr (h, rs)"
  by (induction rs) simp_all

lemma heap_DN_new_instances: "heap_DN_new h (Array (map Instance rs)) = Inr (allocDn h rs)"
  by (simp add: heap_DN_new_def heap_mapToRdn_instances list_ex_iff isRdn_def)

lemma heap_clone_alloc: "heap_clone h s = Inr (allocDn h (rdnsOf h s))"
  by (simp add: heap_clone_def heap_DN_new_instances)

lemma sameExcept_allocDn: "sameExcept (nextRef h) h (fst (allocDn h rs))"
  by (simp add: sameExcept_def allocDn_def)

lemma heap_parent_state:
  assumes "s < nextRef h"
  shows "parentState (heap_parent h s)
    = Inr (case rdnsOf h s of [] \<Rightarrow> None | r # rs \<Rightarrow> Some (map (rdnState h) rs))"
proof (cases "rdnsOf h s")
  case Nil
  then show ?thesis by (simp add: heap_parent_def parentState_def)
next
  case (Cons r rs)
  let ?h1 = "setRdns h s rs"
  have r1: "rdnsOf ?h1 s = rs" by (simp add: rdnsOf_def setRdns_def)
  have sh: "heap_shift h s = (?h1, Some r)" using Cons by (simp add: heap_shift_def)
  obtain h2 new where a: "allocDn ?h1 rs = (h2, new)" by (cases "allocDn ?h1 rs")
  then have new: "new = nextRef h" and h2: "h2 = ?h1\<lparr>dnObjects := (dnObjects ?h1)(nextRef h \<mapsto> rs), nextRef := nextRef h + 1\<rparr>"
    by (auto simp: allocDn_def setRdns_def)
  let ?h3 = "setRdns h2 s (r # rdnsOf h2 s)"
  have p: "heap_parent h s = Inr (?h3, Some new)"
    using Cons sh r1 a by (simp add: heap_parent_def heap_DN_new_instances heap_unshift_def)
  have "dnState ?h3 new = map (rdnState h) rs"
    using assms new h2 by (simp add: dnState_def rdnsOf_def rdnState_def setRdns_def)
  with p Cons show ?thesis by (simp add: parentState_def)
qed

text \<open>
  Claim C3, as amended. \<open>clone\<close> returns a new \<open>DN\<close> instance with a new array that
  holds the same \<open>RDN\<close> instances as the source. Whatever list operations (\<open>push\<close>,
  \<open>unshift\<close>, \<open>pop\<close>, \<open>shift\<close>, \<open>reverse\<close>) are then applied to the clone, the
  results of \<open>parentOf\<close>, \<open>childOf\<close>, \<open>equals\<close> and \<open>parent\<close> called on the source
  (against any instance \<open>d\<close> that existed before) are what they were.
\<close>

theorem clone_list_mutations_frame:
  assumes "heapOk h" "dnObjects h s \<noteq> None" "dnObjects h d \<noteq> None"
    and "heap_clone h s = Inr (h1, c)"
  shows "c \<noteq> s \<and> c \<noteq> d \<and> rdnsOf h1 c = rdnsOf h s \<and> dnState h1 c = dnState h s
    \<and> heap_parentOf (applyMutations h1 c ms) fresh s (ArgDn d) = heap_parentOf h fresh s (ArgDn d)
    \<and> heap_childOf (applyMutations h1 c ms) fresh s (ArgDn d) = heap_childOf h fresh s (ArgDn d)
    \<and> heap_equals (applyMutations h1 c ms) fresh s (ArgDn d) = heap_equals h fresh s (ArgDn d)
    \<and> parentState (heap_parent (applyMutations h1 c ms) s) = parentState (heap_parent h s)"
proof -
  let ?h2 = "applyMutations h1 c ms"
  from assms(4) have c: "c = nextRef h" and h1: "h1 = fst (allocDn h (rdnsOf h s))"
    by (auto simp: heap_clone_alloc allocDn_def)
  from assms(1-3) have lt: "s < nextRef h" "d < nextRef h" by (simp_all add: heapOk_def)
  then have ne: "c \<noteq> s" "c \<noteq> d" using c by simp_all
  have shared: "rdnsOf h1 c = rdnsOf h s" using c h1 by (simp add: allocDn_def rdnsOf_def)
  have st: "dnState h1 c = dnState h s"
    using c h1 by (simp add: allocDn_def dnState_def rdnsOf_def rdnState_def)
  have "sameExcept c h h1" using sameExcept_allocDn [of h "rdnsOf h s"] c h1 by simp
  with applyMutations_frame [of c h1 ms] have se: "sameExcept c h ?h2"
    by (auto intro: sameExcept_trans)
  have n2: "nextRef ?h2 = nextRef h + 1"
    using applyMutations_frame [of c h1 ms] h1 by (simp add: allocDn_def)
  have ds: "dnState ?h2 s = dnState h s" and dd: "dnState ?h2 d = dnState h d"
    using se ne by (simp_all add: sameExcept_dnState)
  have pa: "parentState (heap_parent ?h2 s) = parentState (heap_parent h s)"
  proof -
    have a: "s < nextRef ?h2" using lt n2 by simp
    have e1: "rdnsOf ?h2 s = rdnsOf h s" using se ne by (simp add: sameExcept_rdnsOf)
    have e2: "rdnState ?h2 = rdnState h" using se by (rule sameExcept_rdnState)
    show ?thesis
      by (simp only: heap_parent_state [OF a] heap_parent_state [OF lt(1)] e1 e2)
  qed
  from ne shared st ds dd pa show ?thesis
    by (simp add: heap_parentOf_def heap_childOf_def heap_equals_def resolveArg_def)
qed

lemmas heap_eval = cloneScenario_def heap_DN_new_def heap_clone_def heap_rdnAt_def heap_setAttribute_def
  heap_equals_def resolveArg_def dnState_def rdnsOf_def rdnState_def allocDn_def allocRdn_def
  emptyHeap_def isRdn_def isString_def isStringOrBerReader_def RDN_new_def setAttribute_def
  startsWithAlpha_def isAlpha_def charCode_def js_def Let_def DN_equals_def DN_equals_dn_def
  DN_equals_loop.simps DN_length_def DN_rdnAt_def RDN_equals_def RDN_size_def RDN_keys_def
  RDN_has_def RDN_getValue_def

text \<open>
  The claim as stated fails: \<open>setAttribute\<close> on an \<open>RDN\<close> of the clone changes the
  \<open>RDN\<close> of the source, and \<open>source.equals(other)\<close> turns from true to false.
\<close>

theorem clone_shares_rdn_instances:
  "cloneScenario = Some (Some (Inr True), Some (Inr False))"
  by (simp add: heap_eval)

theorem clone_frame_witness:
  "heapOk sourceHeap \<and> dnObjects sourceHeap 2 \<noteq> None
   \<and> heap_clone sourceHeap 2 = Inr (fst (allocDn sourceHeap [0, 1]), 3)
   \<and> dnState (applyMutations (fst (allocDn sourceHeap [0, 1])) 3 [Shift, Reverse, Push (Instance 0)]) 3
       = [simpleRdn ''dc'' ''com'', simpleRdn ''cn'' ''foo'']
   \<and> heap_equals (applyMutations (fst (allocDn sourceHeap [0, 1])) 3 [Shift, Reverse, Push (Instance 0)])
        0 2 (ArgDn 2) = Some (Inr True)
   \<and> parentState (heap_parent (applyMutations (fst (allocDn sourceHeap [0, 1])) 3
        [Shift, Reverse, Push (Instance 0)]) 2) = Inr (Some [simpleRdn ''dc'' ''com''])"
proof -
  let ?h1 = "fst (allocDn sourceHeap [0, 1])"
  let ?ms = "[Shift, Reverse, Push (Instance 0)]"
  have ok: "heapOk sourceHeap" by (simp add: heapOk_def sourceHeap_def)
  have s: "dnObjects sourceHeap 2 \<noteq> None" by (simp add: sourceHeap_def)
  have c: "heap_clone sourceHeap 2 = Inr (?h1, 3)"
    by (simp add: heap_clone_alloc allocDn_def rdnsOf_def sourceHeap_def)
  have m: "dnState (applyMutations ?h1 3 ?ms) 3 = [simpleRdn ''dc'' ''com'', simpleRdn ''cn'' ''foo'']"
    by (simp add: applyMutations_def applyMutation_def heap_shift_def heap_reverse_def heap_push_def
        setRdns_def allocDn_def rdnsOf_def dnState_def rdnState_def sourceHeap_def)
  have e: "heap_equals sourceHeap 0 2 (ArgDn 2) = Some (Inr True)"
    by (simp add: heap_equals_def resolveArg_def dnState_def rdnsOf_def rdnState_def sourceHeap_def
        DN_equals_def DN_equals_dn_def DN_equals_loop.simps DN_length_def DN_rdnAt_def RDN_equals_def
        RDN_size_def RDN_keys_def RDN_has_def RDN_getValue_def simpleRdn_def js_def)
  have p: "parentState (heap_parent sourceHeap 2) = Inr (Some [simpleRdn ''dc'' ''com''])"
    by (simp add: heap_parent_state rdnsOf_def rdnState_def sourceHeap_def)
  from clone_list_mutations_frame [OF ok s s c, of ?ms 0] ok s c m e p show ?thesis by simp
qed

section \<open>Properties of the attribute-value reader\<close>

lemma byteAt_append: "byteAt (pre @ rest) (int (length pre)) = (case rest of [] \<Rightarrow> None | b # _ \<Rightarrow> Some b)"
  by (cases rest) (simp_all add: byteAt_def nth_append)

lemma byteAt_here [simp]: "byteAt (pre @ b # rest) (int (length pre)) = Some b"
  by (simp add: byteAt_append)

lemma byteAt_end [simp]: "byteAt pre (int (length pre)) = None"
  by (simp add: byteAt_def)

lemma skipSpaces_run:
  "allSpaces sp \<Longrightarrow> (case rest of [] \<Rightarrow> True | b # _ \<Rightarrow> b \<noteq> 0x20) \<Longrightarrow>
   skipSpaces (pre @ sp @ rest) (int (length pre)) = int (length pre + length sp)"
proof (induction sp arbitrary: pre)
  case Nil
  then show ?case
    by (subst skipSpaces.simps) (auto simp: byteAt_append split: list.splits)
next
  case (Cons b sp)
  then have b: "b = 0x20" and sp: "allSpaces sp" by (simp_all add: allSpaces_def)
  from Cons.IH [OF sp Cons.prems(2), of "pre @ [b]"] show ?case
    using b by (subst skipSpaces.simps) (simp add: add.commute)
qed

lemma skipValueSpaces_run:
  "allSpaces sp \<Longrightarrow> (case rest of [] \<Rightarrow> True | b # _ \<Rightarrow> b \<noteq> 0x20) \<Longrightarrow>
   skipValueSpaces (pre @ sp @ rest) (int (length pre)) = int (length pre + length sp)"
proof (induction sp arbitrary: pre)
  case Nil
  then show ?case
    by (subst skipValueSpaces.simps) (auto simp: byteAt_append split: list.splits)
next
  case (Cons b sp)
  then have b: "b = 0x20" and sp: "allSpaces sp" by (simp_all add: allSpaces_def)
  from Cons.IH [OF sp Cons.prems(2), of "pre @ [b]"] show ?case
    using b by (subst skipValueSpaces.simps) (simp add: add.commute)
qed

lemma afterEndQuote_run:
  "allSpaces sp \<Longrightarrow> atEnd rest \<Longrightarrow>
   afterEndQuote (pre @ sp @ rest) (int (length pre)) = Inr (int (length pre + length sp))"
proof (induction sp arbitrary: pre)
  case Nil
  then show ?case
    by (subst afterEndQuote.simps) (auto simp: byteAt_append atEnd_def Let_def split: list.splits)
next
  case (Cons b sp)
  then have b: "b = 0x20" and sp: "allSpaces sp" by (simp_all add: allSpaces_def)
  from Cons.IH [OF sp Cons.prems(2), of "pre @ [b]"] show ?case
    using b by (subst afterEndQuote.simps) (simp add: isEndChar_def Let_def add.commute)
qed

lemma toUint8_byte: "b < 256 \<Longrightarrow> toUint8 (Some (int b)) = b"
  by (simp add: toUint8_def)

lemma readValueString_loop_literal:
  "literalBytes inQuotes content \<Longrightarrow>
   readValueString_loop (pre @ content @ rest) startPos (int (length pre)) inQuotes False acc
   = readValueString_loop (pre @ content @ rest) startPos (int (length pre + length content)) inQuotes False
       (acc @ content)"
proof (induction content arbitrary: pre acc)
  case Nil
  then show ?case by simp
next
  case (Cons b content)
  then have b: "b < 256" "b \<noteq> 0x22" "b \<noteq> 0x5c" "inQuotes \<or> \<not> isEndChar (Some b)"
    and c: "literalBytes inQuotes content" by (simp_all add: literalBytes_def)
  have "readValueString_loop (pre @ (b # content) @ rest) startPos (int (length pre)) inQuotes False acc
      = readValueString_loop (pre @ (b # content) @ rest) startPos (int (length pre) + 1) inQuotes False (acc @ [b])"
    using b by (subst readValueString_loop.simps) (auto simp: Let_def toUint8_byte)
  with Cons.IH [OF c, of "pre @ [b]" "acc @ [b]"] show ?case by (simp add: add.commute)
qed

lemma readValueString_loop_end:
  "\<not> inQuotes \<Longrightarrow> atEnd rest \<Longrightarrow>
   readValueString_loop (pre @ rest) startPos (int (length pre)) inQuotes False acc = Inr (int (length pre), acc)"
  by (subst readValueString_loop.simps)
    (auto simp: byteAt_append atEnd_def Let_def isEndChar_def split: list.splits)

lemma byteAt_Some_less: "byteAt buf p = Some b \<Longrightarrow> 0 \<le> p \<and> p < int (length buf)"
  by (simp add: byteAt_def split: if_splits)

lemma readValueString_loop_open:
  "byteAt buf p = Some 0x22 \<Longrightarrow>
   readValueString_loop buf p p False False acc = readValueString_loop buf p (p + 1) True False acc"
  by (frule byteAt_Some_less, subst readValueString_loop.simps) (simp add: Let_def)

lemma readValueString_loop_close:
  "byteAt buf p = Some 0x22 \<Longrightarrow>
   readValueString_loop buf s p True False acc
    = (case afterEndQuote buf (p + 1) of Inl e \<Rightarrow> Inl e | Inr pos' \<Rightarrow> Inr (pos', acc))"
  by (frule byteAt_Some_less, subst readValueString_loop.simps) (simp add: Let_def)

lemma readValueString_quoted:
  assumes "literalBytes True content" "allSpaces sp2" "atEnd rest"
  shows "readValueString (pre @ 0x22 # content @ 0x22 # sp2 @ rest) (int (length pre))
    = Inr (int (length pre + length content + length sp2 + 2), content)"
proof -
  define buf where "buf = pre @ 0x22 # content @ 0x22 # sp2 @ rest"
  define s where "s = int (length pre)"
  define q where "q = int (length pre) + 1 + int (length content)"
  have b0: "buf = pre @ 0x22 # (content @ 0x22 # sp2 @ rest)" by (simp add: buf_def)
  have b1: "buf = (pre @ [0x22]) @ content @ (0x22 # sp2 @ rest)" by (simp add: buf_def)
  have b2: "buf = (pre @ 0x22 # content) @ 0x22 # (sp2 @ rest)" by (simp add: buf_def)
  have b3: "buf = (pre @ 0x22 # content @ [0x22]) @ sp2 @ rest" by (simp add: buf_def)
  have o: "byteAt buf s = Some 0x22" unfolding b0 s_def by (rule byteAt_here)
  have c: "byteAt buf q = Some 0x22"
    using byteAt_here [of "pre @ 0x22 # content" "0x22" "sp2 @ rest"]
    unfolding b2 [symmetric] by (simp add: q_def ac_simps)
  have "readValueString buf s = readValueString_loop buf s (s + 1) True False []"
    unfolding readValueString_def by (rule readValueString_loop_open [OF o])
  also have "\<dots> = readValueString_loop buf s q True False content"
    using readValueString_loop_literal [OF assms(1), of "pre @ [0x22]" "0x22 # sp2 @ rest" s "[]"]
    unfolding b1 [symmetric] by (simp add: q_def s_def ac_simps)
  also have "\<dots> = (case afterEndQuote buf (q + 1) of Inl e \<Rightarrow> Inl e | Inr pos' \<Rightarrow> Inr (pos', content))"
    by (rule readValueString_loop_close [OF c])
  also have "afterEndQuote buf (q + 1) = Inr (q + 1 + int (length sp2))"
    using afterEndQuote_run [OF assms(2,3), of "pre @ 0x22 # content @ [0x22]"]
    unfolding b3 [symmetric] by (simp add: q_def ac_simps)
  finally show ?thesis
    unfolding buf_def s_def q_def by (simp add: ac_simps)
qed

lemma readValueString_plain:
  assumes "literalBytes False content" "atEnd rest"
  shows "readValueString (pre @ content @ rest) (int (length pre))
    = Inr (int (length pre + length content), content)"
proof -
  have "readValueString (pre @ content @ rest) (int (length pre))
      = readValueString_loop (pre @ content @ rest) (int (length pre))
          (int (length pre + length content)) False False content"
    unfolding readValueString_def
    using readValueString_loop_literal [OF assms(1), of pre rest "int (length pre)" "[]"] by simp
  also have "\<dots> = Inr (int (length pre + length content), content)"
    using readValueString_loop_end [OF _ assms(2), of False "pre @ content" "int (length pre)" content]
    by simp
  finally show ?thesis .
qed

lemma readAttributeValue_steps:
  assumes "allSpaces sp0" "allSpaces sp1" "v = [] \<or> (hd v \<noteq> 0x20 \<and> hd v \<noteq> 0x23)"
    "readValueString (pre @ sp0 @ 0x3d # sp1 @ v) (int (length pre + length sp0 + 1 + length sp1)) = Inr (e, bytes)"
    "v = [] \<longrightarrow> e = int (length pre + length sp0 + 1 + length sp1) \<and> bytes = []"
  shows "readAttributeValue fresh (pre @ sp0 @ 0x3d # sp1 @ v) (int (length pre))
    = Inr (e, VString (trim (toStringUtf8 bytes)))"
proof -
  define buf where "buf = pre @ sp0 @ 0x3d # sp1 @ v"
  define p where "p = int (length pre + length sp0)"
  define q where "q = int (length pre + length sp0 + 1 + length sp1)"
  have b0: "buf = pre @ sp0 @ (0x3d # sp1 @ v)" by (simp add: buf_def)
  have b1: "buf = (pre @ sp0) @ 0x3d # (sp1 @ v)" by (simp add: buf_def)
  have b2: "buf = (pre @ sp0 @ [0x3d]) @ sp1 @ v" by (simp add: buf_def)
  have s0: "skipSpaces buf (int (length pre)) = p"
    using skipSpaces_run [OF assms(1), of "0x3d # sp1 @ v" pre] unfolding b0 [symmetric] p_def by simp
  have eq: "byteAt buf p = Some 0x3d"
    using byteAt_here [of "pre @ sp0" "0x3d" "sp1 @ v"] unfolding b1 [symmetric] p_def by simp
  have nsp: "case v of [] \<Rightarrow> True | b # _ \<Rightarrow> b \<noteq> 0x20"
    using assms(3) by (cases v) auto
  have s1: "skipValueSpaces buf (p + 1) = q"
    using skipValueSpaces_run [OF assms(2) nsp, of "pre @ sp0 @ [0x3d]"]
    unfolding b2 [symmetric] p_def q_def by (simp add: ac_simps)
  have at: "byteAt buf q = (case v of [] \<Rightarrow> None | b # _ \<Rightarrow> Some b)"
    using byteAt_append [of "pre @ sp0 @ 0x3d # sp1" v] unfolding buf_def q_def by (simp add: ac_simps)
  have len: "q \<ge> int (length buf) \<longleftrightarrow> v = []" unfolding buf_def q_def by auto
  from byteAt_Some_less [OF eq] have pl: "\<not> int (length buf) \<le> p" by simp
  show ?thesis
  proof (cases v)
    case Nil
    with assms(5) have "e = q" "bytes = []" by (simp_all add: q_def)
    moreover have "trim (toStringUtf8 []) = []" by (simp add: trim_def toStringUtf8_def)
    ultimately show ?thesis
      using Nil len pl unfolding buf_def [symmetric] readAttributeValue_def
      by (simp add: s0 eq s1 Let_def)
  next
    case (Cons b v')
    with assms(3) have "b \<noteq> 0x23" by simp
    with Cons at have "byteAt buf q \<noteq> Some 0x23" by simp
    moreover have "readValueString buf q = Inr (e, bytes)"
      using assms(4) unfolding buf_def q_def .
    ultimately show ?thesis
      using Cons len pl unfolding buf_def [symmetric] readAttributeValue_def
      by (simp add: s0 eq s1 Let_def)
  qed
qed

text \<open>
  Claim C4, as amended. For a value without escape sequences, followed by the end of
  the buffer or by an end character: between quotes every byte is collected, spaces and
  separators included, and only the spaces between the closing quote and the end
  character are discarded; without quotes the bytes up to the end character are
  collected. In both cases the collected bytes are decoded as UTF-8 and the result is
  trimmed, so white space at either end of the quoted text is removed like white space
  around an unquoted value.
\<close>

theorem readAttributeValue_trims_quoted_and_unquoted:
  assumes "allSpaces sp0" "allSpaces sp1" "allSpaces sp2" "atEnd rest"
  shows "(literalBytes True content \<longrightarrow>
      readAttributeValue fresh (pre @ sp0 @ 0x3d # sp1 @ 0x22 # content @ 0x22 # sp2 @ rest) (int (length pre))
      = Inr (int (length pre + length sp0 + 1 + length sp1 + 1 + length content + 1 + length sp2),
          VString (trim (toStringUtf8 content))))
    \<and> (literalBytes False content \<and> (content = [] \<or> (hd content \<noteq> 0x20 \<and> hd content \<noteq> 0x23)) \<longrightarrow>
      readAttributeValue fresh (pre @ sp0 @ 0x3d # sp1 @ content @ rest) (int (length pre))
      = Inr (int (length pre + length sp0 + 1 + length sp1 + length content),
          VString (trim (toStringUtf8 content))))"
proof (intro conjI impI)
  assume c: "literalBytes True content"
  let ?v = "0x22 # content @ 0x22 # sp2 @ rest"
  let ?pre = "pre @ sp0 @ 0x3d # sp1"
  have "readValueString (?pre @ ?v) (int (length ?pre))
      = Inr (int (length ?pre + length content + length sp2 + 2), content)"
    by (rule readValueString_quoted [OF c assms(3,4)])
  then have r: "readValueString (pre @ sp0 @ 0x3d # sp1 @ ?v) (int (length pre + length sp0 + 1 + length sp1))
      = Inr (int (length pre + length sp0 + 1 + length sp1 + 1 + length content + 1 + length sp2), content)"
    by (simp add: ac_simps)
  show "readAttributeValue fresh (pre @ sp0 @ 0x3d # sp1 @ ?v) (int (length pre))
      = Inr (int (length pre + length sp0 + 1 + length sp1 + 1 + length content + 1 + length sp2),
          VString (trim (toStringUtf8 content)))"
    by (rule readAttributeValue_steps [OF assms(1,2) _ r]) simp_all
next
  assume "literalBytes False content \<and> (content = [] \<or> (hd content \<noteq> 0x20 \<and> hd content \<noteq> 0x23))"
  then have c: "literalBytes False content" and h: "content = [] \<or> (hd content \<noteq> 0x20 \<and> hd content \<noteq> 0x23)"
    by simp_all
  let ?pre = "pre @ sp0 @ 0x3d # sp1"
  have "readValueString (?pre @ content @ rest) (int (length ?pre))
      = Inr (int (length ?pre + length content), content)"
    by (rule readValueString_plain [OF c assms(4)])
  then have r: "readValueString (pre @ sp0 @ 0x3d # sp1 @ content @ rest) (int (length pre + length sp0 + 1 + length sp1))
      = Inr (int (length pre + length sp0 + 1 + length sp1 + length content), content)"
    by (simp add: ac_simps)
  have h': "content @ rest = [] \<or> (hd (content @ rest) \<noteq> 0x20 \<and> hd (content @ rest) \<noteq> 0x23)"
    using h assms(4) by (cases content; cases rest) (auto simp: atEnd_def isEndChar_def)
  show "readAttributeValue fresh (pre @ sp0 @ 0x3d # sp1 @ content @ rest) (int (length pre))
      = Inr (int (length pre + length sp0 + 1 + length sp1 + length content),
          VString (trim (toStringUtf8 content)))"
    by (rule readAttributeValue_steps [OF assms(1,2) h' r]) simp
qed

lemmas parse_eval =
  parseString_def readRdnLoop.simps readAttributePair_def readAttributeValue_def
  readValueString_def readValueString_loop.simps afterEndQuote.simps readHexString_def
  readHexString_loop.simps readEscapeSequence_def readEscapeSequence_loop.simps
  skipSpaces.simps skipValueSpaces.simps findNameStart.simps findNameEnd.simps
  isValidAttributeTypeName_def hasKeyChars_def hasInvalidChars_def isValidNameChar_def
  isLeadChar_def isAlpha_def isDigit_def isHexDigit_def hexDigitValue_def parseInt16_def
  isWhiteSpace_def trim_def toUint8_def toStringUtf8_def utf16_of_codepoint_def subarray_def
  byteAt_def charAt_def fromCharCode_def charCode_def isEndChar_def isEndCharHex_def
  isSeparator_def objectSet_def isArrayIndex_def decimalValue_def
  utf8_of_codepoint_def is_high_surrogate_def is_low_surrogate_def
  js_def ascii_def Let_def

lemmas dn_string_eval =
  DN_fromString_def DN_new_def toRdn_def isRdn_def isString_def isStringOrBerReader_def
  RDN_new_def setAttribute_def startsWithAlpha_def isDottedDecimal_def partIsNotNumeric_def
  DN_toString_def RDN_toString_def isHexEncodedValue_def ToString_def
  escapeValue_def escapeLoop.simps toEscapedHexString_def padStart2_def toString16.simps
  hex_digit_def embeddedReservedChars_def escapedAt_def simpleRdn_def

theorem readAttributeValue_trims_witness:
  "readAttributeValue 0 (ascii ''cn = \" a, b \" ,dc=x'') 2 = Inr (14, VString (js ''a, b''))
   \<and> readAttributeValue 0 (ascii ''cn=  foo bar  ,dc=x'') 2 = Inr (14, VString (js ''foo bar''))"
proof -
  have a: "allSpaces (ascii '' '')" "allSpaces (ascii ''  '')" "allSpaces []"
    "atEnd (ascii '',dc=x'')"
    by (simp_all add: allSpaces_def atEnd_def isEndChar_def ascii_def)
  have q: "literalBytes True (ascii '' a, b '')"
    by (simp add: literalBytes_def ascii_def)
  have u: "literalBytes False (ascii ''foo bar  '') \<and> (ascii ''foo bar  '' = [] \<or>
      (hd (ascii ''foo bar  '') \<noteq> 0x20 \<and> hd (ascii ''foo bar  '') \<noteq> 0x23))"
    by (simp add: literalBytes_def ascii_def isEndChar_def)
  have t: "trim (toStringUtf8 (ascii '' a, b '')) = js ''a, b''"
    "trim (toStringUtf8 (ascii ''foo bar  '')) = js ''foo bar''"
    by (simp_all add: parse_eval)
  from readAttributeValue_trims_quoted_and_unquoted [OF a(1) a(1) a(1) a(4), of "ascii '' a, b ''" 0 "ascii ''cn''"]
    q t(1)
  have 1: "readAttributeValue 0 (ascii ''cn = \" a, b \" ,dc=x'') 2 = Inr (14, VString (js ''a, b''))"
    by (simp add: ascii_def)
  from readAttributeValue_trims_quoted_and_unquoted [OF a(3) a(2) a(3) a(4), of "ascii ''foo bar  ''" 0 "ascii ''cn''"]
    u t(2)
  have 2: "readAttributeValue 0 (ascii ''cn=  foo bar  ,dc=x'') 2 = Inr (14, VString (js ''foo bar''))"
    by (simp add: ascii_def)
  from 1 2 show ?thesis by simp
qed

text \<open>
  The claim as stated fails: the spaces before the closing quote are inside the quotes
  and are not part of the returned value.
\<close>

theorem readAttributeValue_quoted_counterexample:
  "readAttributeValue 0 (ascii ''=\"foo bar   \"'') 0 = Inr (13, VString (js ''foo bar''))"
  by (simp add: parse_eval)

section \<open>Properties of the DN string parser\<close>

lemma utf8_decode_ascii:
  "list_all (\<lambda>b. b < 0x80) bs \<Longrightarrow> utf8_decode_loop bs 0 0 0 0x80 0xBF = bs"
  by (induction bs) simp_all

lemma toStringUtf8_ascii:
  "list_all (\<lambda>c. charCode c < 0x80) s \<Longrightarrow> toStringUtf8 (map charCode s) = s"
proof -
  assume a: "list_all (\<lambda>c. charCode c < 0x80) s"
  then have "list_all (\<lambda>b. b < 0x80) (map charCode s)" by (simp add: list_all_iff)
  from utf8_decode_ascii [OF this] have "toStringUtf8 (map charCode s)
      = concat (map utf16_of_codepoint (map charCode s))" by (simp add: toStringUtf8_def)
  also have "\<dots> = s" using a
    by (induction s) (simp_all add: utf16_of_codepoint_def charCode_def)
  finally show ?thesis .
qed

lemma charAt_here: "charAt (pre @ charCode c # rest) (int (length pre)) = c"
  by (simp add: charAt_def fromCharCode_charCode)

lemma findNameEnd_run:
  "list_all (\<lambda>b. isValidNameChar (Some b) \<and> b \<noteq> 0x20 \<and> b \<noteq> 0x3d) n \<Longrightarrow>
   findNameEnd (pre @ n @ 0x3d # rest) (int (length pre)) = int (length pre + length n)"
proof (induction n arbitrary: pre)
  case Nil
  then show ?case by (subst findNameEnd.simps) (simp add: Let_def)
next
  case (Cons b n)
  from Cons.IH [of "pre @ [b]"] Cons.prems show ?case
    by (subst findNameEnd.simps) (simp add: Let_def ac_simps)
qed

lemma isAlpha_ascii: "isAlpha c \<Longrightarrow> charCode c < 0x80"
  by (auto simp: isAlpha_def)

lemma descr_char_valid:
  "isAlpha c \<or> isDigit c \<or> charCode c = 0x2d \<Longrightarrow>
   isValidNameChar (Some (charCode c)) \<and> charCode c \<noteq> 0x20 \<and> charCode c \<noteq> 0x3d \<and> charCode c < 0x80"
  by (auto simp: isAlpha_def isDigit_def isValidNameChar_def)

lemma descrName_valid: "descrName name \<Longrightarrow> isValidAttributeTypeName name"
  by (cases name)
    (auto simp: descrName_def isValidAttributeTypeName_def hasInvalidChars_def list_all_iff
      isAlpha_def isDigit_def)

lemma subarray_prefix: "subarray (n @ rest) 0 (int (length n)) = n"
  by (simp add: subarray_def Let_def)

lemma readAttributePair_simple:
  assumes "descrName name" "plainValue val" "atEnd rest"
  shows "readAttributePair fresh (map charCode name @ 0x3d # map charCode val @ rest) 0
    = Inr (int (length name + 1 + length val), (name, VString (trim val)))"
proof -
  define n where "n = map charCode name"
  define v where "v = map charCode val"
  define buf where "buf = n @ 0x3d # v @ rest"
  from assms(1) obtain c cs where name: "name = c # cs" and c: "isAlpha c"
    and cs: "list_all (\<lambda>c. isAlpha c \<or> isDigit c \<or> charCode c = 0x2d) cs"
    by (auto simp: descrName_def split: list.splits)
  have nv: "list_all (\<lambda>b. isValidNameChar (Some b) \<and> b \<noteq> 0x20 \<and> b \<noteq> 0x3d) n"
    using c cs descr_char_valid unfolding n_def name by (auto simp: list_all_iff)
  have na: "list_all (\<lambda>c. charCode c < 0x80) name"
    using c cs descr_char_valid unfolding name by (auto simp: list_all_iff)
  have b0: "buf = [] @ charCode c # (map charCode cs @ 0x3d # v @ rest)"
    by (simp add: buf_def n_def name)
  have fs: "findNameStart buf 0 = 0"
  proof -
    have "byteAt buf 0 = Some (charCode c)" using byteAt_here [of "[]" "charCode c"] unfolding b0 by simp
    moreover have "charAt buf 0 = c" using charAt_here [of "[]" c] unfolding b0 by simp
    moreover have "charCode c \<noteq> 0x20" "charCode c \<noteq> 0x2c" using c by (auto simp: isAlpha_def)
    moreover have "0 < length buf" by (simp add: buf_def)
    ultimately show ?thesis using c by (subst findNameStart.simps) (simp add: isLeadChar_def)
  qed
  have fe: "findNameEnd buf 0 = int (length n)"
    using findNameEnd_run [OF nv, of "[]" "v @ rest"] by (simp add: buf_def)
  have an: "toStringUtf8 (subarray buf 0 (int (length n))) = name"
    unfolding buf_def subarray_prefix n_def by (rule toStringUtf8_ascii [OF na])
  have lv: "literalBytes False v"
    using assms(2) unfolding v_def plainValue_def literalBytes_def
    by (auto simp: list_all_iff isEndChar_def)
  have hv: "v @ rest = [] \<or> (hd (v @ rest) \<noteq> 0x20 \<and> hd (v @ rest) \<noteq> 0x23)"
    using assms(2,3) unfolding v_def plainValue_def
    by (cases val; cases rest) (auto simp: atEnd_def isEndChar_def)
  have va: "list_all (\<lambda>c. charCode c < 0x80) val"
    using assms(2) by (auto simp: plainValue_def list_all_iff)
  have "readValueString ((n @ [0x3d]) @ v @ rest) (int (length (n @ [0x3d])))
      = Inr (int (length (n @ [0x3d]) + length v), v)"
    by (rule readValueString_plain [OF lv assms(3)])
  then have r: "readValueString (n @ [] @ 0x3d # [] @ v @ rest) (int (length n + length ([]::byte list) + 1 + length ([]::byte list)))
      = Inr (int (length n + 1 + length v), v)" by (simp add: ac_simps)
  have "readAttributeValue fresh (n @ [] @ 0x3d # [] @ v @ rest) (int (length n))
      = Inr (int (length n + 1 + length v), VString (trim (toStringUtf8 v)))"
    by (rule readAttributeValue_steps [OF _ _ hv r]) (auto simp: allSpaces_def)
  then have rv: "readAttributeValue fresh buf (int (length n))
      = Inr (int (length name + 1 + length val), VString (trim val))"
    unfolding buf_def by (simp add: n_def v_def toStringUtf8_ascii [OF va])
  show ?thesis
    unfolding buf_def [symmetric] n_def [symmetric] v_def [symmetric] readAttributePair_def
    by (simp add: fs fe an rv Let_def descrName_valid [OF assms(1)])
qed

lemma readRdnLoop_trailing_separator:
  assumes "pos \<le> int (length buf)"
    and "readAttributePair fresh buf (skipSpaces buf pos) = Inr (endPos, pair)"
    and "endPos = int (length buf) - 1" "isSeparator (byteAt buf endPos)"
  shows "readRdnLoop fresh buf False pos rdn rdns = abruptEnd (charAt buf endPos)"
proof -
  obtain name val where pair: "pair = (name, val)" by (cases pair)
  from assms(4) have lt: "0 \<le> endPos" "endPos < int (length buf)"
    by (auto simp: isSeparator_def dest: byteAt_Some_less)
  have last: "readRdnLoop fresh buf False (endPos + 1) r rs = abruptEnd (charAt buf endPos)" for r rs
    using assms(3,4) by (subst readRdnLoop.simps) (simp add: abruptEnd_def)
  have inner: "readRdnLoop fresh buf True endPos r rs = abruptEnd (charAt buf endPos)" for r rs
    using assms(4) lt by (subst readRdnLoop.simps) (auto simp: isSeparator_def Let_def last)
  show ?thesis
  proof (cases "pos = int (length buf) \<and> isSeparator (byteAt buf (pos - 1))")
    case True
    with assms(3,4) show ?thesis by (subst readRdnLoop.simps) (auto simp: abruptEnd_def)
  next
    case False
    then show ?thesis
      using assms(1,2) lt pair by (subst readRdnLoop.simps) (auto simp: inner)
  qed
qed

text \<open>
  Claim C6, as amended. When an attribute pair has been read without error and ends
  at a separator that is the last byte of the input, parsing fails with the error
  that cites this separator. This is so for every input made of a descriptor, an equals
  sign, a plain value and one final separator, such as \<open>foo=bar+\<close>.
\<close>

theorem parseString_trailing_separator:
  "(pos \<le> int (length buf) \<and> readAttributePair fresh buf (skipSpaces buf pos) = Inr (endPos, pair)
      \<and> endPos = int (length buf) - 1 \<and> isSeparator (byteAt buf endPos)
    \<longrightarrow> readRdnLoop fresh buf False pos rdn rdns = abruptEnd (charAt buf endPos))
   \<and> (descrName name \<and> plainValue val \<and> charCode sep \<in> {0x2b, 0x2c, 0x3b}
    \<longrightarrow> parseString fresh (VString (name @ js ''='' @ val @ [sep])) = abruptEnd sep)"
proof (intro conjI impI)
  assume "pos \<le> int (length buf) \<and> readAttributePair fresh buf (skipSpaces buf pos) = Inr (endPos, pair)
      \<and> endPos = int (length buf) - 1 \<and> isSeparator (byteAt buf endPos)"
  then show "readRdnLoop fresh buf False pos rdn rdns = abruptEnd (charAt buf endPos)"
    by (auto intro: readRdnLoop_trailing_separator)
next
  assume a: "descrName name \<and> plainValue val \<and> charCode sep \<in> {0x2b, 0x2c, 0x3b}"
  then have d: "descrName name" and p: "plainValue val" and s: "charCode sep \<in> {0x2b, 0x2c, 0x3b}"
    by simp_all
  define buf where "buf = map charCode name @ 0x3d # map charCode val @ [charCode sep]"
  define inp where "inp = name @ js ''='' @ val @ [sep]"
  have ascii: "\<forall>c \<in> set inp. charCode c \<le> 0x7f"
    using d p s unfolding inp_def descrName_def plainValue_def
    by (auto simp: list_all_iff js_def charCode_def split: list.splits dest!: isAlpha_ascii [unfolded charCode_def] descr_char_valid [unfolded charCode_def])
  have bf: "buffer_from_utf8 inp = buf"
    unfolding buffer_from_utf8_ascii [OF ascii] by (simp add: inp_def buf_def js_def charCode_def)
  have ne: "length inp \<noteq> 0" by (simp add: inp_def)
  have ae: "atEnd [charCode sep]" using s by (auto simp: atEnd_def isEndChar_def)
  have rp: "readAttributePair fresh buf 0 = Inr (int (length name + 1 + length val), (name, VString (trim val)))"
    unfolding buf_def by (rule readAttributePair_simple [OF d p ae])
  from d obtain c cs where name: "name = c # cs" and c: "isAlpha c"
    by (auto simp: descrName_def split: list.splits)
  have sk: "skipSpaces buf 0 = 0"
    using c by (subst skipSpaces.simps) (auto simp: buf_def name byteAt_def isAlpha_def)
  have e: "int (length name + 1 + length val) = int (length buf) - 1" by (simp add: buf_def)
  have bs: "byteAt buf (int (length name + 1 + length val)) = Some (charCode sep)"
    using byteAt_here [of "map charCode name @ 0x3d # map charCode val" "charCode sep" "[]"]
    by (simp add: buf_def)
  have cs': "charAt buf (int (length name + 1 + length val)) = sep"
    using bs by (simp add: charAt_def fromCharCode_charCode)
  have sp: "isSeparator (byteAt buf (int (length name + 1 + length val)))"
    using s bs by (auto simp: isSeparator_def)
  have "readRdnLoop fresh buf False 0 [] [] = abruptEnd (charAt buf (int (length name + 1 + length val)))"
    by (rule readRdnLoop_trailing_separator [OF _ _ e sp, where pair = "(name, VString (trim val))"])
      (simp_all add: sk rp)
  then show "parseString fresh (VString (name @ js ''='' @ val @ [sep])) = abruptEnd sep"
    using ne cs' unfolding parseString_def inp_def [symmetric] by (simp add: bf)
qed

theorem parseString_trailing_separator_witness:
  "descrName (js ''foo'') \<and> plainValue (js ''bar'')
   \<and> parseString 0 (VString (js ''foo=bar+''))
       = Some (Inl (Error (js ''rdn string ends abruptly with character: +'')))
   \<and> readAttributePair 0 (ascii ''a=1,  b=\"x\";'') (skipSpaces (ascii ''a=1,  b=\"x\";'') 4)
       = Inr (11, (js ''b'', VString (js ''x'')))
   \<and> readRdnLoop 0 (ascii ''a=1,  b=\"x\";'') False 4 [] [[(js ''a'', VString (js ''1''))]]
       = Some (Inl (Error (js ''rdn string ends abruptly with character: ;'')))"
proof -
  let ?buf = "ascii ''a=1,  b=\"x\";''"
  have d: "descrName (js ''foo'')" by (simp add: descrName_def isAlpha_def isDigit_def charCode_def js_def)
  have p: "plainValue (js ''bar'')" by (simp add: plainValue_def charCode_def js_def)
  have s: "charCode 0x2b \<in> {0x2b, 0x2c, 0x3b}" by (simp add: charCode_def)
  have r: "readAttributePair 0 ?buf (skipSpaces ?buf 4) = Inr (11, (js ''b'', VString (js ''x'')))"
    by (simp add: parse_eval)
  have l: "(4::int) \<le> int (length ?buf)" "(11::int) = int (length ?buf) - 1" "isSeparator (byteAt ?buf 11)"
    by (simp_all add: ascii_def isSeparator_def byteAt_def)
  have c: "charAt ?buf 11 = 0x3b" by (simp add: ascii_def charAt_def byteAt_def fromCharCode_def)
  from parseString_trailing_separator [of 4 ?buf 0 11 "(js ''b'', VString (js ''x''))" "[]"
      "[[(js ''a'', VString (js ''1''))]]" "js ''foo''" "js ''bar''" "0x2b"] d p s r l c
  show ?thesis by (simp add: abruptEnd_def js_def)
qed

text \<open>
  The claim as stated fails. The inputs \<open>cn=foo,,\<close> and \<open>foo,\<close> end with a separator
  and nothing after it, and the error cites no separator: in the first the last comma
  is skipped while the start of the next attribute name is looked for, in the second no
  attribute pair has been read. The input \<open>cn=foo,\<close> fails as the claim says.
\<close>

theorem parseString_trailing_separator_counterexample:
  "parseString 0 (VString (js ''cn=foo,,''))
     = Some (Inl (Error (js ''invalid attribute name leading character encountered'')))
   \<and> parseString 0 (VString (js ''foo,''))
     = Some (Inl (Error (js ''attribute value does not start with equals sign'')))
   \<and> parseString 0 (VString (js ''cn=foo,''))
     = Some (Inl (Error (js ''rdn string ends abruptly with character: ,'')))"
  by (simp add: parse_eval)

section \<open>The escape decoder and the round trip at concrete inputs\<close>

text \<open>
  Claim C7 at the input \<open>foo\+bar\<close>, read from position 3: \<open>+b\<close> is no hexadecimal
  number of two digits and \<open>+\<close> is below 0x80, yet the byte 0x0B is returned and three
  bytes are consumed, because \<open>parseInt('+b', 16)\<close> is 11. At \<open>foo\#bar\<close> the
  character \<open>#\<close> is returned and two bytes are consumed.
\<close>

theorem readEscapeSequence_escaped_plus:
  "readEscapeSequence (ascii ''foo'' @ 0x5c # ascii ''+bar'') 3 = Inr (6, [0x0b])
   \<and> readEscapeSequence (ascii ''foo'' @ 0x5c # ascii ''#bar'') 3 = Inr (5, [0x23])"
  by (simp add: parse_eval)

text \<open>
  Claim C1 at the input \<open>cn=\\41\<close>: the parsed value is \<open>\41\<close>, it is written
  as \<open>cn=\41\<close> because \<open>escapeValue\<close> leaves the backslash as it is, and parsing
  that string gives the value \<open>A\<close>.
\<close>

theorem roundtrip_backslash:
  "DN_fromString 0 (VString (js ''cn='' @ [0x5c, 0x5c] @ js ''41''))
     = Some (Inr [[(js ''cn'', \<lparr>attr_value = VString (0x5c # js ''41''), attr_name = VString (js ''cn''),
          attr_extra = []\<rparr>)]])
   \<and> DN_toString [[(js ''cn'', \<lparr>attr_value = VString (0x5c # js ''41''), attr_name = VString (js ''cn''),
          attr_extra = []\<rparr>)]] = Inr (js ''cn='' @ 0x5c # js ''41'')
   \<and> DN_fromString 0 (VString (js ''cn='' @ 0x5c # js ''41'')) = Some (Inr [simpleRdn ''cn'' ''A''])"
  by (simp add: parse_eval dn_string_eval)

section \<open>The hierarchy operations on binary values parsed separately\<close>

text \<open>
  Claim C2 as stated fails when equality of \<open>RDN\<close>s is the equality of the
  specification, same attributes with the same values. The strings \<open>dc=#01\<close> and
  \<open>cn=x,dc=#01\<close> are parsed one after the other; the two values of \<open>dc\<close> hold the same
  byte, yet they are two containers, and \<open>parentOf\<close> answers false, for the parsed
  instance as for the string.
\<close>

theorem parentOf_hex_counterexample:
  "DN_fromString 0 (VString (js ''dc=#01'')) = Some (Inr [hexRdn ''dc'' 4 [1]])
   \<and> DN_fromString 100 (VString (js ''cn=x,dc=#01'')) = Some (Inr [simpleRdn ''cn'' ''x'', hexRdn ''dc'' 109 [1]])
   \<and> DN_parentOf 0 [hexRdn ''dc'' 4 [1]] (ArgDn [simpleRdn ''cn'' ''x'', hexRdn ''dc'' 109 [1]])
       = Some (Inr False)
   \<and> DN_parentOf 100 [hexRdn ''dc'' 4 [1]] (ArgString (js ''cn=x,dc=#01'')) = Some (Inr False)"
proof -
  have a: "DN_fromString 0 (VString (js ''dc=#01'')) = Some (Inr [hexRdn ''dc'' 4 [1]])"
    by (simp add: parse_eval dn_string_eval hexRdn_def)
  have b: "DN_fromString 100 (VString (js ''cn=x,dc=#01''))
      = Some (Inr [simpleRdn ''cn'' ''x'', hexRdn ''dc'' 109 [1]])"
    by (simp add: parse_eval dn_string_eval hexRdn_def)
  have p: "DN_parentOf_dn [hexRdn ''dc'' 4 [1]] [simpleRdn ''cn'' ''x'', hexRdn ''dc'' 109 [1]] = False"
    by (simp add: dn_eval hexRdn_def)
  from a b p show ?thesis by (simp add: DN_parentOf_def)
qed

end
